theory Spec2Isabelle
  imports Main "HOL-Library.Multiset"
begin

section \<open>Result cache\<close>

text \<open>
  The server keeps its compilation results in a JavaScript \<open>Map\<close> from the cache key
  (a hex digest) to an object \<open>{wasm, wasmExec?, timestamp}\<close>.  A \<open>Map\<close> iterates in
  insertion order and holds every key once, so it is modelled as an association list in
  insertion order; \<open>set\<close> on a key that is present keeps its position, \<open>set\<close> on a new
  key appends, \<open>delete\<close> removes the key.  Time stamps are the milliseconds of
  \<open>Date.now()\<close>.
\<close>

record cache_entry =
  wasm :: string
  wasmExec :: "string option"
  timestamp :: int

type_synonym cache = "(string \<times> cache_entry) list"

definition CACHE_TTL :: int where
  "CACHE_TTL = 1000 * 60 * 60"

definition MAX_CACHE_SIZE :: nat where
  "MAX_CACHE_SIZE = 100"

fun cache_get :: "cache \<Rightarrow> string \<Rightarrow> cache_entry option" where
  "cache_get [] k = None"
| "cache_get ((k', v) # c) k = (if k' = k then Some v else cache_get c k)"

fun cache_set :: "string \<Rightarrow> cache_entry \<Rightarrow> cache \<Rightarrow> cache" where
  "cache_set k v [] = [(k, v)]"
| "cache_set k v ((k', v') # c) = (if k' = k then (k, v) # c else (k', v') # cache_set k v c)"

fun cache_delete :: "string \<Rightarrow> cache \<Rightarrow> cache" where
  "cache_delete k [] = []"
| "cache_delete k ((k', v') # c) = (if k' = k then cache_delete k c else (k', v') # cache_delete k c)"

text \<open>
  \<open>cleanCache\<close> takes a snapshot \<open>entries\<close> of the map, deletes every key of the snapshot
  whose entry is older than \<open>CACHE_TTL\<close>, and then, when the map still holds more than
  \<open>MAX_CACHE_SIZE\<close> keys, sorts the snapshot (the one taken before the purge) by time
  stamp and deletes the keys of its first \<open>size - MAX_CACHE_SIZE\<close> elements.
  \<open>Array.prototype.sort\<close> is stable, as \<open>sort_key\<close> is.
\<close>

definition purge_expired :: "int \<Rightarrow> cache \<Rightarrow> cache \<Rightarrow> cache" where
  "purge_expired now entries c =
     fold (\<lambda>(key, val) m. if now - timestamp val > CACHE_TTL then cache_delete key m else m)
       entries c"

definition cleanCache :: "int \<Rightarrow> cache \<Rightarrow> cache" where
  "cleanCache now c =
     (let entries = c;
          c1 = purge_expired now entries c
      in if length c1 > MAX_CACHE_SIZE then
           let sorted = sort_key (\<lambda>(key, val). timestamp val) entries;
               toRemove = take (length c1 - MAX_CACHE_SIZE) sorted
           in fold (\<lambda>(key, val) m. cache_delete key m) toRemove c1
         else c1)"

text \<open>
  A fresh result is stored by \<open>cleanCache(); compilationCache.set(cacheKey, ...)\<close>:
  the clean-up runs at \<open>now\<close>, before the new entry is in the map.
\<close>

definition cache_insert :: "int \<Rightarrow> string \<Rightarrow> cache_entry \<Rightarrow> cache \<Rightarrow> cache" where
  "cache_insert now k v c = cache_set k v (cleanCache now c)"


text \<open>
  The run used below to exercise the cache: keys \<open>a\<close>, \<open>aa\<close>, \<open>aaa\<close>, ... are stored one
  after the other, the \<open>i\<close>-th at time \<open>i\<close> (milliseconds), each with its own time stamp.
\<close>

definition sample_key :: "nat \<Rightarrow> string" where
  "sample_key i = replicate (Suc i) (CHR ''a'')"

definition sample_entry :: "nat \<Rightarrow> cache_entry" where
  "sample_entry i = \<lparr>wasm = ''AGFzbQ=='', wasmExec = Some [], timestamp = int i\<rparr>"

definition insert_samples :: "nat \<Rightarrow> cache" where
  "insert_samples n =
     fold (\<lambda>i. cache_insert (int i) (sample_key i) (sample_entry i)) [0..<n] []"

section \<open>Strings\<close>

text \<open>
  JavaScript strings are modelled as lists of 8-bit characters (the Latin-1 range of the
  UTF-16 code units).  White space and line terminators are those of ECMAScript that fall
  in this range.  The functions below are the \<open>String.prototype\<close> methods and the
  regular expressions that the server applies.
\<close>

definition startsWith :: "string \<Rightarrow> string \<Rightarrow> bool" where
  "startsWith s p = (take (length p) s = p)"

text \<open>\<open>find_from p s\<close> is the rest of \<open>s\<close> from the first occurrence of \<open>p\<close> on.\<close>

fun find_from :: "string \<Rightarrow> string \<Rightarrow> string option" where
  "find_from p [] = (if p = [] then Some [] else None)"
| "find_from p (c # cs) = (if startsWith (c # cs) p then Some (c # cs) else find_from p cs)"

text \<open>\<open>before_first p s\<close> is \<open>s\<close> cut at the first occurrence of \<open>p\<close>.\<close>

fun before_first :: "string \<Rightarrow> string \<Rightarrow> string" where
  "before_first p [] = []"
| "before_first p (c # cs) = (if startsWith (c # cs) p then [] else c # before_first p cs)"

definition js_includes :: "string \<Rightarrow> string \<Rightarrow> bool" where
  "js_includes s p = (find_from p s \<noteq> None)"

definition is_space :: "char \<Rightarrow> bool" where
  "is_space c =
     (c = CHR 0x09 \<or> c = CHR 0x0A \<or> c = CHR 0x0B \<or> c = CHR 0x0C \<or> c = CHR 0x0D
      \<or> c = CHR 0x20 \<or> c = CHR 0xA0)"

definition is_line_terminator :: "char \<Rightarrow> bool" where
  "is_line_terminator c = (c = CHR 0x0A \<or> c = CHR 0x0D)"

definition is_digit :: "char \<Rightarrow> bool" where
  "is_digit c = (c \<in> set ''0123456789'')"

definition trim :: "string \<Rightarrow> string" where
  "trim s = rev (dropWhile is_space (rev (dropWhile is_space s)))"

text \<open>\<open>s.split('\n')\<close> and \<open>lines.join('\n')\<close>.\<close>

fun split_lines :: "string \<Rightarrow> string list" where
  "split_lines [] = [[]]"
| "split_lines (c # cs) =
     (if c = CHR 0x0A then [] # split_lines cs
      else (case split_lines cs of [] \<Rightarrow> [[c]] | l # ls \<Rightarrow> (c # l) # ls))"

fun join_lines :: "string list \<Rightarrow> string" where
  "join_lines [] = []"
| "join_lines [l] = l"
| "join_lines (l # ls) = l @ CHR 0x0A # join_lines ls"

text \<open>\<open>l.match(/^\d+\s*\|/)\<close>: digits, optional white space, a vertical bar.\<close>

definition numbered_line :: "string \<Rightarrow> bool" where
  "numbered_line l =
     (let r = dropWhile is_digit l
      in r \<noteq> l \<and> (case dropWhile is_space r of [] \<Rightarrow> False | c # _ \<Rightarrow> c = CHR ''|''))"

text \<open>
  The regular expression \<open>/Command failed:.*?SHELL -c "[^"]+"/g\<close>, with \<open>SHELL\<close> one of
  \<open>bash\<close> and \<open>sh\<close>.  \<open>quoted_tail\<close> matches \<open>SHELL -c "[^"]+"\<close> at the head of a string and
  gives the length of the match; \<open>lazy_dots\<close> is the lazy \<open>.*?\<close> that stays on one line and
  stops at the first place where the tail matches; \<open>strip_scan\<close> is the global replacement
  by the empty string, scanning from the left and skipping the characters of a match.
\<close>

definition quoted_tail :: "string \<Rightarrow> string \<Rightarrow> nat option" where
  \<open>quoted_tail shell r =
     (if startsWith r (shell @ '' -c "'') then
        let body = drop (length shell + 5) r;
            run = takeWhile (\<lambda>c. c \<noteq> CHR 0x22) body;
            rest = dropWhile (\<lambda>c. c \<noteq> CHR 0x22) body
        in if run \<noteq> [] \<and> rest \<noteq> [] then Some (length shell + 5 + length run + 1) else None
      else None)\<close>

fun lazy_dots :: "string \<Rightarrow> string \<Rightarrow> nat option" where
  "lazy_dots shell [] = quoted_tail shell []"
| "lazy_dots shell (c # cs) =
     (case quoted_tail shell (c # cs) of
        Some n \<Rightarrow> Some n
      | None \<Rightarrow> if is_line_terminator c then None else map_option Suc (lazy_dots shell cs))"

definition command_failed_at :: "string \<Rightarrow> string \<Rightarrow> nat option" where
  "command_failed_at shell s =
     (if startsWith s ''Command failed:''
      then map_option (\<lambda>n. 15 + n) (lazy_dots shell (drop 15 s)) else None)"

fun strip_scan :: "string \<Rightarrow> nat \<Rightarrow> string \<Rightarrow> string" where
  "strip_scan shell n [] = []"
| "strip_scan shell (Suc n) (c # cs) = strip_scan shell n cs"
| "strip_scan shell 0 (c # cs) =
     (case command_failed_at shell (c # cs) of
        Some (Suc m) \<Rightarrow> strip_scan shell m cs
      | _ \<Rightarrow> c # strip_scan shell 0 cs)"

definition strip_command_failed :: "string \<Rightarrow> string \<Rightarrow> string" where
  "strip_command_failed shell s = strip_scan shell 0 s"

text \<open>Decimal digits of a number, as a template literal prints it.\<close>

fun string_of_nat :: "nat \<Rightarrow> string" where
  "string_of_nat n =
     (if n < 10 then [char_of (48 + n)]
      else string_of_nat (n div 10) @ [char_of (48 + n mod 10)])"

declare string_of_nat.simps [simp del]

section \<open>Error classifier\<close>

text \<open>
  The clean-up of a failure text in the \<open>catch\<close> block of the compile job: for \<open>cpp\<close> the
  text from the first \<open>main.cpp:\<close> on, without the tail that starts at \<open>emcc: error:\<close>;
  for \<open>rust\<close> the lines that start with \<open>error:\<close>, \<open>-->\<close>, \<open>|\<close> or a numbered source line;
  for every other language the text without the \<open>Command failed: ... sh -c "..."\<close> wrapper.
\<close>

definition classify :: "string \<Rightarrow> string \<Rightarrow> string" where
  "classify language cleanError =
     (if language = ''cpp'' then
        let e1 = (case find_from ''main.cpp:'' cleanError of Some m \<Rightarrow> m | None \<Rightarrow> cleanError)
        in trim (before_first ''emcc: error:'' e1)
      else if language = ''rust'' then
        let e1 = strip_command_failed ''bash'' cleanError;
            lines = split_lines e1
        in trim (join_lines (filter (\<lambda>l. startsWith l ''error:'' \<or> startsWith l ''-->''
                                        \<or> startsWith l ''|'' \<or> numbered_line l) lines))
      else trim (strip_command_failed ''sh'' cleanError))"

section \<open>Language registry\<close>

text \<open>
  \<open>config/languages.ts\<close>.  The field \<open>id\<close> is written \<open>lang_id\<close>.  The field
  \<open>defaultCode\<close> (the sample program shown to a user) is not read by the server and is
  left out.
\<close>

record LanguageConfig =
  lang_id :: string
  name :: string
  filename :: string
  dockerImage :: string
  compileCmd :: string
  poolSize :: nat

definition LANGUAGES_own :: "(string \<times> LanguageConfig) list" where
  \<open>LANGUAGES_own =
     [(''cpp'', \<lparr>lang_id = ''cpp'', name = ''C++'', filename = ''main.cpp'',
         dockerImage = ''wasm-compiler-cpp'',
         compileCmd = ''bash -c "emcc main.cpp -o temp.wasm -s STANDALONE_WASM=1 -s PURE_WASI=1 -O0 -s ERROR_ON_UNDEFINED_SYMBOLS=0 && wasm-opt temp.wasm -o output.wasm --asyncify"'',
         poolSize = 3\<rparr>),
      (''rust'', \<lparr>lang_id = ''rust'', name = ''Rust'', filename = ''main.rs'',
         dockerImage = ''wasm-compiler-rust'',
         compileCmd = ''bash -c "rustc --target wasm32-wasip1 --edition 2021 -C opt-level=0 -o temp.wasm main.rs && wasm-opt temp.wasm -o output.wasm --asyncify --pass-arg=asyncify-imports@env.invoke_*,wasi_snapshot_preview1.fd_read,wasi_snapshot_preview1.poll_oneoff"'',
         poolSize = 2\<rparr>),
      (''go'', \<lparr>lang_id = ''go'', name = ''Go'', filename = ''main.go'',
         dockerImage = ''wasm-compiler-go'',
         compileCmd = ''sh -c "go build -p 4 -o output.wasm main.go && cp /usr/local/go/misc/wasm/wasm_exec.js wasm_exec.js"'',
         poolSize = 3\<rparr>)]\<close>

text \<open>
  \<open>LANGUAGES\<close> is an object literal, and \<open>LANGUAGES[language]\<close> is a property read: it
  finds the three own properties, and for the property names of \<open>Object.prototype\<close> it
  finds the inherited member (a function or the prototype object, all of them truthy and
  without a \<open>filename\<close>).  Every other key reads \<open>undefined\<close>.
\<close>

datatype registry_value = Own LanguageConfig | Inherited | Undefined

definition object_prototype_keys :: "string list" where
  "object_prototype_keys =
     [''constructor'', ''__defineGetter__'', ''__defineSetter__'', ''hasOwnProperty'',
      ''__lookupGetter__'', ''__lookupSetter__'', ''isPrototypeOf'', ''propertyIsEnumerable'',
      ''toString'', ''valueOf'', ''__proto__'', ''toLocaleString'']"

definition LANGUAGES :: "string \<Rightarrow> registry_value" where
  "LANGUAGES key =
     (case map_of LANGUAGES_own key of
        Some config \<Rightarrow> Own config
      | None \<Rightarrow> if key \<in> set object_prototype_keys then Inherited else Undefined)"

section \<open>Admission queue\<close>

text \<open>
  \<open>activeCompilations\<close> and \<open>requestQueue\<close> are the two variables of the server.  The
  queue holds continuations; a continuation is named by the number of the
  \<open>executeWithQueue\<close> call that made it.  The other fields are history variables: the
  calls in the order they were made (\<open>arrivals\<close>), the jobs in the order their \<open>fn\<close> was
  started (\<open>starts\<close>), the jobs whose \<open>fn\<close> is in flight (\<open>executing\<close>), the jobs whose
  \<open>fn\<close> has settled while the code after \<open>await fn()\<close> has not run yet (\<open>settling\<close>, with
  the outcome: \<open>True\<close> for a resolved promise, \<open>False\<close> for a rejected one), and the jobs
  whose outcome has been handed to the caller (\<open>delivered\<close>).
\<close>

record admission =
  activeCompilations :: int
  requestQueue :: "nat list"
  arrivals :: "nat list"
  starts :: "nat list"
  executing :: "nat list"
  settling :: "(nat \<times> bool) list"
  delivered :: "(nat \<times> bool) list"

definition MAX_CONCURRENT_COMPILATIONS :: int where
  "MAX_CONCURRENT_COMPILATIONS = 4"

definition init_admission :: admission where
  "init_admission =
     \<lparr>activeCompilations = 0, requestQueue = [], arrivals = [], starts = [],
      executing = [], settling = [], delivered = []\<rparr>"

text \<open>\<open>activeCompilations++\<close> followed by the call \<open>fn()\<close>, in either branch.\<close>

definition start_fn :: "nat \<Rightarrow> admission \<Rightarrow> admission" where
  "start_fn j a =
     a\<lparr>activeCompilations := activeCompilations a + 1,
       starts := starts a @ [j], executing := executing a @ [j]\<rparr>"

text \<open>
  The \<open>finally\<close> block, the same in both branches:
  \<open>activeCompilations--; const next = requestQueue.shift(); if (next) next();\<close>
  where \<open>next()\<close> runs the queued continuation up to its \<open>await\<close>.
\<close>

definition finally_block :: "admission \<Rightarrow> admission" where
  "finally_block a =
     (let a1 = a\<lparr>activeCompilations := activeCompilations a - 1\<rparr>
      in case requestQueue a1 of
           [] \<Rightarrow> a1
         | next # rest \<Rightarrow> start_fn next (a1\<lparr>requestQueue := rest\<rparr>))"

text \<open>The synchronous part of a call \<open>executeWithQueue(fn)\<close>, the \<open>j\<close>-th one.\<close>

definition executeWithQueue :: "nat \<Rightarrow> admission \<Rightarrow> admission" where
  "executeWithQueue j a =
     (let a0 = a\<lparr>arrivals := arrivals a @ [j]\<rparr>
      in if activeCompilations a0 < MAX_CONCURRENT_COMPILATIONS then start_fn j a0
         else a0\<lparr>requestQueue := requestQueue a0 @ [j]\<rparr>)"

text \<open>The promise of \<open>fn()\<close> settles; nothing of the server's state changes yet.\<close>

definition fn_settles :: "nat \<Rightarrow> bool \<Rightarrow> admission \<Rightarrow> admission" where
  "fn_settles j ok a =
     a\<lparr>executing := remove1 j (executing a), settling := settling a @ [(j, ok)]\<rparr>"

text \<open>
  The code after \<open>await fn()\<close> runs: the outcome goes to the caller (\<open>return\<close> or
  \<open>resolve\<close> for a result, the exception or \<open>reject\<close> for a failure), then the
  \<open>finally\<close> block runs.
\<close>

definition resume :: "nat \<Rightarrow> bool \<Rightarrow> admission \<Rightarrow> admission" where
  "resume j ok a =
     finally_block
       (a\<lparr>settling := remove1 (j, ok) (settling a), delivered := delivered a @ [(j, ok)]\<rparr>)"

text \<open>
  The server runs one piece of code at a time, to its end.  The pieces that touch the
  queue are the three above; a run of the queue is a list of them, each possible only
  in its time: a call is a new one, a promise that settles is in flight, and the code
  that resumes is the one of a settled promise.
\<close>

datatype event = Call nat | Settles nat bool | Resumes nat bool

fun step :: "event \<Rightarrow> admission \<Rightarrow> admission option" where
  "step (Call j) a = (if j \<in> set (arrivals a) then None else Some (executeWithQueue j a))"
| "step (Settles j ok) a = (if j \<in> set (executing a) then Some (fn_settles j ok a) else None)"
| "step (Resumes j ok) a = (if (j, ok) \<in> set (settling a) then Some (resume j ok a) else None)"

fun run :: "event list \<Rightarrow> admission \<Rightarrow> admission option" where
  "run [] a = Some a"
| "run (e # es) a = (case step e a of None \<Rightarrow> None | Some a' \<Rightarrow> run es a')"

fun is_completion :: "event \<Rightarrow> bool" where
  "is_completion (Call j) = False"
| "is_completion (Settles j ok) = True"
| "is_completion (Resumes j ok) = True"

text \<open>
  The work that is left: a queued job and a job in flight need two steps each (its
  promise settles, its code resumes), a settled job one.
\<close>

definition work_left :: "admission \<Rightarrow> nat" where
  "work_left a = 2 * length (requestQueue a) + 2 * length (executing a) + length (settling a)"

section \<open>Server state and the outside world\<close>

text \<open>
  An exception of the runtime: \<open>error.stderr\<close> is defined for a failed \<open>exec\<close> and
  undefined otherwise; \<open>error.message\<close> is a string.
\<close>

record js_error =
  stderr :: "string option"
  message :: string

definition undefined_length_error :: js_error where
  "undefined_length_error =
     \<lparr>stderr = None,
      message = ''Cannot read properties of undefined (reading '' @ [CHR 0x27] @ ''length''
                @ [CHR 0x27] @ '')''\<rparr>"

definition undefined_property_error :: js_error where
  "undefined_property_error =
     \<lparr>stderr = None, message = ''Cannot read properties of undefined''\<rparr>"

definition not_a_function_error :: js_error where
  "not_a_function_error = \<lparr>stderr = None, message = ''pool.shift is not a function''\<rparr>"

definition push_not_a_function_error :: js_error where
  "push_not_a_function_error = \<lparr>stderr = None, message = ''pool.push is not a function''\<rparr>"

definition path_type_error :: js_error where
  \<open>path_type_error =
     \<lparr>stderr = None,
      message = ''The "path" argument must be of type string. Received undefined''\<rparr>\<close>

text \<open>\<open>a || b\<close> for a string \<open>a\<close> that may be undefined.\<close>

definition or_else :: "string option \<Rightarrow> string \<Rightarrow> string" where
  "or_else a b = (case a of None \<Rightarrow> b | Some t \<Rightarrow> if t = [] then b else t)"

text \<open>
  What the server asks of Docker and of the file system is kept in a log, in the order
  of the requests.  \<open>DockerWarm\<close> stands for the commands that look for, start or create
  one container of the warm pool.  \<open>Acquired\<close> and \<open>Released\<close> are not commands: they
  record that \<open>getContainer\<close> has returned a container and that \<open>releaseContainer\<close> has
  been called with it.
\<close>

datatype effect =
    DockerVersion
  | DockerWarm string
  | DockerRun string string
  | DockerExec string string
  | DockerCpIn string
  | DockerCpOut string string
  | DockerRmF string
  | Mkdir
  | WriteFile string string
  | ReadFile string
  | RmScratch
  | Acquired string string
  | Released string string

text \<open>
  The variables of the server.  \<open>containerPool\<close> is an object with one array for each
  language of the registry.  \<open>poolInitPromise\<close> is \<open>True\<close> when the variable holds a
  promise.
\<close>

record server =
  compilationCache :: cache
  admission_queue :: admission
  containerPool :: "string \<rightharpoonup> string list"
  poolReady :: bool
  poolInitializing :: bool
  poolInitPromise :: bool
  effects :: "effect list"

definition init_server :: server where
  "init_server =
     \<lparr>compilationCache = [], admission_queue = init_admission,
      containerPool = map_of (map (\<lambda>(lang, config). (lang, [])) LANGUAGES_own),
      poolReady = False, poolInitializing = False, poolInitPromise = False, effects = []\<rparr>"

definition log :: "effect \<Rightarrow> server \<Rightarrow> server" where
  "log e s = s\<lparr>effects := effects s @ [e]\<rparr>"

text \<open>
  What the outside world answers while one request is served: for every command that can
  fail, its error or \<open>None\<close>; for the warm-up, the containers (language and number) whose
  warm-up succeeds, in the order in which they finish; for the two files that are read,
  the text (the artifact already in base64, as \<open>wasmBuffer.toString('base64')\<close> gives
  it); the values of \<open>Date.now()\<close>; and the number of the \<open>executeWithQueue\<close> call.
\<close>

record world =
  docker_version_res :: "js_error option"
  warm_finished :: "(string \<times> nat) list"
  job_id :: nat
  mkdir_res :: "js_error option"
  writeFile_res :: "js_error option"
  now_temp :: nat
  docker_run_res :: "js_error option"
  cp_in_res :: "js_error option"
  compile_res :: "js_error option"
  cp_out_res :: "js_error option"
  cp_shim_res :: "js_error option"
  read_wasm_res :: "js_error + string"
  read_shim_res :: "js_error + string"
  now_clean :: int
  now_set :: int
  rm_res :: "js_error option"
  rm_catch_ok :: bool

section \<open>Container pool\<close>

text \<open>
  \<open>initPool\<close>.  A second caller gets the promise of a warm-up that is under way and adds
  nothing of its own.  The loops start the warm-up of every container of every language
  (\<open>warm_targets\<close>, in the order of the loops); the warm-ups run side by side, and each
  pushes its container when its own commands have finished, so the order of a free list
  is the order in which the warm-ups finish, which the world gives.  A warm-up that
  fails is caught and logged by the server and pushes nothing.  Of the list of the world,
  the containers that were started count, each once.
\<close>

definition pool_name :: "string \<Rightarrow> nat \<Rightarrow> string" where
  "pool_name lang i = ''wasm-pool-'' @ lang @ ''-'' @ string_of_nat i"

definition warm_targets :: "(string \<times> nat) list" where
  "warm_targets =
     concat (map (\<lambda>(key, config). map (\<lambda>i. (lang_id config, i)) [0..<poolSize config])
               LANGUAGES_own)"

definition start_warm :: "string \<times> nat \<Rightarrow> server \<Rightarrow> server" where
  "start_warm t s = log (DockerWarm (pool_name (fst t) (snd t))) s"

definition push_warm :: "string \<times> nat \<Rightarrow> server \<Rightarrow> server" where
  "push_warm t s =
     (case containerPool s (fst t) of
        None \<Rightarrow> s
      | Some pool \<Rightarrow>
          s\<lparr>containerPool := (containerPool s)(fst t \<mapsto> pool @ [pool_name (fst t) (snd t)])\<rparr>)"

definition initPool :: "world \<Rightarrow> server \<Rightarrow> server" where
  "initPool w s =
     (if poolReady s then s
      else if poolInitializing s \<and> poolInitPromise s then s
      else
        let s1 = log DockerVersion (s\<lparr>poolInitializing := True, poolInitPromise := True\<rparr>)
        in case docker_version_res w of
             Some err \<Rightarrow> s1\<lparr>poolInitializing := False, poolReady := False\<rparr>
           | None \<Rightarrow>
               let s2 = fold start_warm warm_targets s1;
                   finished = filter (\<lambda>t. t \<in> set warm_targets) (remdups (warm_finished w));
                   s3 = fold push_warm finished s2
               in s3\<lparr>poolReady := True, poolInitializing := False\<rparr>)"

text \<open>
  \<open>containerPool\<close> is an object literal, like the registry: \<open>containerPool[language]\<close>
  reads the array of a language of the registry, the inherited member for a name of
  \<open>Object.prototype\<close>, and \<open>undefined\<close> for every other name.  Of an inherited member
  the functions below read \<open>length\<close> only: the number of parameters of a function, and
  nothing for the prototype object that \<open>__proto__\<close> reads.
\<close>

datatype pool_value = Array "string list" | Member "nat option" | NoValue

definition member_length :: "string \<Rightarrow> nat option" where
  "member_length key =
     (if key \<in> set [''toString'', ''valueOf'', ''toLocaleString''] then Some 0
      else if key \<in> set [''constructor'', ''hasOwnProperty'', ''__lookupGetter__'',
                           ''__lookupSetter__'', ''isPrototypeOf'', ''propertyIsEnumerable'']
      then Some 1
      else if key \<in> set [''__defineGetter__'', ''__defineSetter__''] then Some 2
      else None)"

definition pool_of :: "server \<Rightarrow> string \<Rightarrow> pool_value" where
  "pool_of s language =
     (case containerPool s language of
        Some pool \<Rightarrow> Array pool
      | None \<Rightarrow> if language \<in> set object_prototype_keys
                then Member (member_length language) else NoValue)"

definition image_of :: "registry_value \<Rightarrow> string" where
  "image_of v = (case v of Own config \<Rightarrow> dockerImage config | _ \<Rightarrow> ''undefined'')"

text \<open>
  \<open>getContainer\<close>: \<open>if (pool.length > 0) return pool.shift()\<close>, and otherwise
  (\<open>create_temp\<close>) a container made on demand.  A function has no \<open>shift\<close>.
\<close>

definition create_temp :: "world \<Rightarrow> string \<Rightarrow> server \<Rightarrow> (js_error + string) \<times> server" where
  "create_temp w language s =
     (let containerName = ''wasm-temp-'' @ language @ ''-'' @ string_of_nat (now_temp w);
          s1 = log (DockerRun containerName (image_of (LANGUAGES language))) s
      in if LANGUAGES language = Undefined then (Inl undefined_property_error, s)
         else (case docker_run_res w of
                 Some err \<Rightarrow> (Inl err, s1)
               | None \<Rightarrow> (Inr containerName, log (Acquired language containerName) s1)))"

definition getContainer :: "world \<Rightarrow> string \<Rightarrow> server \<Rightarrow> (js_error + string) \<times> server" where
  "getContainer w language s =
     (case pool_of s language of
        NoValue \<Rightarrow> (Inl undefined_length_error, s)
      | Array (first # rest) \<Rightarrow>
          (Inr first,
           log (Acquired language first) (s\<lparr>containerPool := (containerPool s)(language \<mapsto> rest)\<rparr>))
      | Array [] \<Rightarrow> create_temp w language s
      | Member len \<Rightarrow>
          if (case len of Some n \<Rightarrow> n > 0 | None \<Rightarrow> False) then (Inl not_a_function_error, s)
          else create_temp w language s)"

text \<open>\<open>LANGUAGES[language]?.poolSize || 2\<close>\<close>

definition poolSize_or_2 :: "string \<Rightarrow> nat" where
  "poolSize_or_2 language =
     (case LANGUAGES language of
        Own config \<Rightarrow> if poolSize config = 0 then 2 else poolSize config
      | _ \<Rightarrow> 2)"

text \<open>
  \<open>releaseContainer\<close>.  The failure of \<open>docker rm -f\<close> is caught and ignored, so the
  exceptions are the one of \<open>pool.length\<close> for a name without a value and the one of
  \<open>pool.push\<close> for a function.
\<close>

definition releaseContainer :: "string \<Rightarrow> string \<Rightarrow> server \<Rightarrow> js_error option \<times> server" where
  "releaseContainer language containerName s =
     (let s0 = log (Released language containerName) s
      in case pool_of s0 language of
           NoValue \<Rightarrow> (Some undefined_length_error, s0)
         | Array pool \<Rightarrow>
             if length pool < poolSize_or_2 language \<and> js_includes containerName ''pool'' then
               (None, s0\<lparr>containerPool := (containerPool s0)(language \<mapsto> pool @ [containerName])\<rparr>)
             else (None, log (DockerRmF containerName) s0)
         | Member len \<Rightarrow>
             if (case len of Some n \<Rightarrow> n < poolSize_or_2 language | None \<Rightarrow> False)
                \<and> js_includes containerName ''pool''
             then (Some push_not_a_function_error, s0)
             else (None, log (DockerRmF containerName) s0))"

section \<open>Compile job\<close>

text \<open>
  The commands between \<open>getContainer\<close> and the cache: clear \<open>/src\<close> (a failure is ignored),
  copy the scratch directory in, compile, copy \<open>output.wasm\<close> out and, for \<open>go\<close>,
  \<open>wasm_exec.js\<close>; read the artifact and, for \<open>go\<close>, the shim.  The result is the pair
  \<open>(wasmBase64, wasmExecContent)\<close>.
\<close>

definition compile_in_container ::
  "world \<Rightarrow> string \<Rightarrow> LanguageConfig \<Rightarrow> string \<Rightarrow> server \<Rightarrow> (js_error + string \<times> string) \<times> server" where
  \<open>compile_in_container w language config containerName s =
     (let s1 = log (DockerExec containerName ''sh -c "cd /src && rm -f *"'') s;
          s2 = log (DockerCpIn containerName) s1;
          s3 = log (DockerExec containerName (compileCmd config)) s2;
          s4 = log (DockerCpOut containerName ''output.wasm'') s3;
          s5 = (if language = ''go''
                then log (DockerCpOut containerName ''wasm_exec.js'') s4 else s4);
          s6 = log (ReadFile ''output.wasm'') s5;
          s7 = log (ReadFile ''wasm_exec.js'') s6
      in case cp_in_res w of
           Some err \<Rightarrow> (Inl err, s2)
         | None \<Rightarrow>
        (case compile_res w of
           Some err \<Rightarrow> (Inl err, s3)
         | None \<Rightarrow>
        (case cp_out_res w of
           Some err \<Rightarrow> (Inl err, s4)
         | None \<Rightarrow>
        (case (if language = ''go'' then cp_shim_res w else None) of
           Some err \<Rightarrow> (Inl err, s5)
         | None \<Rightarrow>
        (case read_wasm_res w of
           Inl err \<Rightarrow> (Inl err, s6)
         | Inr wasmBase64 \<Rightarrow>
             if language = ''go'' then
               (case read_shim_res w of
                  Inl err \<Rightarrow> (Inl err, s7)
                | Inr wasmExecContent \<Rightarrow> (Inr (wasmBase64, wasmExecContent), s7))
             else (Inr (wasmBase64, []), s6))))))\<close>

text \<open>
  A JSON object of a response: a field is present (\<open>Some\<close>) or left out (\<open>None\<close>);
  \<open>res.json\<close> leaves out a field whose value is \<open>undefined\<close>.  The fields \<open>success\<close>,
  \<open>wasm\<close>, \<open>wasmExec\<close>, \<open>cached\<close> and \<open>error\<close> are written with the prefix \<open>json_\<close>.
\<close>

record body =
  json_success :: "bool option"
  json_wasm :: "string option"
  json_wasmExec :: "string option"
  json_cached :: "bool option"
  json_error :: "string option"

definition error_body :: "string \<Rightarrow> body" where
  "error_body msg =
     \<lparr>json_success = None, json_wasm = None, json_wasmExec = None, json_cached = None,
      json_error = Some msg\<rparr>"

text \<open>
  The local variables of one run of the job: the server, \<open>containerName\<close> (empty until
  \<open>getContainer\<close> has returned), and whether the scratch directory exists.
\<close>

record job_state =
  srv :: server
  containerName :: string
  scratch :: bool

definition config_of :: "registry_value \<Rightarrow> js_error + LanguageConfig" where
  "config_of v =
     (case v of
        Own config \<Rightarrow> Inr config
      | Inherited \<Rightarrow> Inl path_type_error
      | Undefined \<Rightarrow> Inl undefined_property_error)"

text \<open>
  The \<open>try\<close> block, in two parts.  \<open>try_with_container\<close> is the part that runs once
  \<open>getContainer\<close> has returned: compile, store the result in the cache, remove the
  scratch directory, clear \<open>/src\<close> without waiting for it, release the container, and
  return the result.  \<open>try_block\<close> is the whole: make the directory, write the source
  (\<open>path.join(tmpDir, config.filename)\<close> throws when \<open>config\<close> has no \<open>filename\<close>), get
  a container and go on with it.
\<close>

definition try_with_container ::
  "world \<Rightarrow> string \<Rightarrow> string \<Rightarrow> LanguageConfig \<Rightarrow> string \<Rightarrow> job_state
     \<Rightarrow> (js_error + body) \<times> job_state" where
  \<open>try_with_container w language cacheKey config got l4 =
     (case compile_in_container w language config got (srv l4) of
        (Inl err, sv1) \<Rightarrow> (Inl err, l4\<lparr>srv := sv1\<rparr>)
      | (Inr (wasmBase64, wasmExecContent), sv1) \<Rightarrow>
     (let sv2 = sv1\<lparr>compilationCache :=
                   cache_insert (now_clean w) cacheKey
                     \<lparr>wasm = wasmBase64, wasmExec = Some wasmExecContent,
                      timestamp = now_set w\<rparr>
                     (compilationCache sv1)\<rparr>;
          l5 = l4\<lparr>srv := log RmScratch sv2\<rparr>;
          l6 = l5\<lparr>scratch := False,
                  srv := log (DockerExec got ''rm -rf /src/*'') (srv l5)\<rparr>
      in case rm_res w of
        Some err \<Rightarrow> (Inl err, l5)
      | None \<Rightarrow>
     (case releaseContainer language got (srv l6) of
        (Some err, sv3) \<Rightarrow> (Inl err, l6\<lparr>srv := sv3\<rparr>)
      | (None, sv3) \<Rightarrow>
          (Inr \<lparr>json_success = Some True, json_wasm = Some wasmBase64,
                json_wasmExec = Some wasmExecContent,
                json_cached = None, json_error = None\<rparr>,
           l6\<lparr>srv := sv3\<rparr>))))\<close>

definition try_block ::
  "world \<Rightarrow> string \<Rightarrow> string \<Rightarrow> string \<Rightarrow> job_state \<Rightarrow> (js_error + body) \<times> job_state" where
  \<open>try_block w language code cacheKey l0 =
     (let l1 = l0\<lparr>srv := log Mkdir (srv l0)\<rparr>;
          l2 = l1\<lparr>scratch := True\<rparr>
      in case mkdir_res w of
           Some err \<Rightarrow> (Inl err, l1)
         | None \<Rightarrow>
        (case config_of (LANGUAGES language) of
           Inl err \<Rightarrow> (Inl err, l2)
         | Inr config \<Rightarrow>
        (let l3 = l2\<lparr>srv := log (WriteFile (filename config) code) (srv l2)\<rparr>
         in case writeFile_res w of
           Some err \<Rightarrow> (Inl err, l3)
         | None \<Rightarrow>
        (case getContainer w language (srv l3) of
           (Inl err, sv) \<Rightarrow> (Inl err, l3\<lparr>srv := sv\<rparr>)
         | (Inr got, sv) \<Rightarrow>
             try_with_container w language cacheKey config got
               (l3\<lparr>srv := sv, containerName := got\<rparr>)))))\<close>

text \<open>
  The \<open>catch\<close> block: release the container if there is one, remove the scratch
  directory (a failure is ignored), clean the text of the error
  (\<open>error.stderr || error.message || "Compilation failed"\<close>), and throw an error with
  the cleaned text, or with \<open>Compilation failed\<close> if nothing is left of it.
\<close>

definition raw_text :: "js_error \<Rightarrow> string" where
  "raw_text err = or_else (stderr err) (or_else (Some (message err)) ''Compilation failed'')"

definition catch_block :: "world \<Rightarrow> string \<Rightarrow> js_error \<Rightarrow> job_state \<Rightarrow> js_error \<times> job_state" where
  "catch_block w language err l =
     (case (if containerName l \<noteq> [] then releaseContainer language (containerName l) (srv l)
            else (None, srv l)) of
        (Some err', sv) \<Rightarrow> (err', l\<lparr>srv := sv\<rparr>)
      | (None, sv) \<Rightarrow>
          let l1 = l\<lparr>srv := log RmScratch sv, scratch := (scratch l \<and> \<not> rm_catch_ok w)\<rparr>;
              cleanError = classify language (raw_text err)
          in (\<lparr>stderr = None, message = or_else (Some cleanError) ''Compilation failed''\<rparr>, l1))"

text \<open>The function that the handler gives to \<open>executeWithQueue\<close>.\<close>

definition compile_job ::
  "world \<Rightarrow> string \<Rightarrow> string \<Rightarrow> string \<Rightarrow> server \<Rightarrow> (js_error + body) \<times> job_state" where
  "compile_job w language code cacheKey s =
     (case try_block w language code cacheKey \<lparr>srv = s, containerName = [], scratch = False\<rparr> of
        (Inr result, l) \<Rightarrow> (Inr result, l)
      | (Inl err, l) \<Rightarrow> (case catch_block w language err l of (err', l') \<Rightarrow> (Inl err', l')))"

section \<open>Request handler\<close>

text \<open>
  The body of a request is \<open>{language, code}\<close>, two strings; a field that is missing
  reads \<open>undefined\<close> (\<open>None\<close>).  A response is a status and a JSON object; \<open>Pending\<close>
  stands for a request whose continuation waits in \<open>requestQueue\<close>: its response is
  the one of \<open>complete_job\<close>, made when the continuation is run.
\<close>

record request =
  body_language :: "string option"
  body_code :: "string option"

datatype response = Response nat body | Pending

text \<open>
  The digest of the cache key is a parameter \<open>H\<close> (SHA-256 in hexadecimal, in the
  server).
\<close>

definition getCacheKey :: "(string \<Rightarrow> string) \<Rightarrow> string \<Rightarrow> string \<Rightarrow> string" where
  "getCacheKey H language code = H (language @ '':'' @ code)"

text \<open>
  The job from the moment its function is started to the response: the function runs,
  its promise settles, \<open>executeWithQueue\<close> hands the outcome on and runs its \<open>finally\<close>
  block, and the handler answers with the result or with status 500 and the message.
\<close>

definition complete_job :: "world \<Rightarrow> string \<Rightarrow> string \<Rightarrow> string \<Rightarrow> server \<Rightarrow> response \<times> server" where
  "complete_job w language code cacheKey s =
     (case compile_job w language code cacheKey s of
        (r, l) \<Rightarrow>
          let ok = (case r of Inr result \<Rightarrow> True | Inl err \<Rightarrow> False);
              sv = (srv l)\<lparr>admission_queue :=
                      resume (job_id w) ok (fn_settles (job_id w) ok (admission_queue (srv l)))\<rparr>
          in (case r of
                Inr result \<Rightarrow> Response 200 result
              | Inl err \<Rightarrow> Response 500 (error_body (message err)),
              sv))"

definition handle :: "(string \<Rightarrow> string) \<Rightarrow> world \<Rightarrow> request \<Rightarrow> server \<Rightarrow> response \<times> server" where
  "handle H w req s =
     (let s1 = (if \<not> poolReady s then initPool w s else s)
      in case (body_language req, body_code req) of
           (Some language, Some code) \<Rightarrow>
             if language = [] \<or> code = [] then
               (Response 400 (error_body ''Missing language or code''), s1)
             else if LANGUAGES language = Undefined then
               (Response 400 (error_body ''Unsupported language''), s1)
             else
               let cacheKey = getCacheKey H language code
               in (case cache_get (compilationCache s1) cacheKey of
                     Some cached \<Rightarrow>
                       (Response 200
                          \<lparr>json_success = Some True, json_wasm = Some (wasm cached),
                           json_wasmExec = wasmExec cached, json_cached = Some True,
                           json_error = None\<rparr>,
                        s1)
                   | None \<Rightarrow>
                       let s2 = s1\<lparr>admission_queue :=
                                   executeWithQueue (job_id w) (admission_queue s1)\<rparr>
                       in if activeCompilations (admission_queue s1) < MAX_CONCURRENT_COMPILATIONS
                          then complete_job w language code cacheKey s2
                          else (Pending, s2))
         | _ \<Rightarrow> (Response 400 (error_body ''Missing language or code''), s1))"

section \<open>Reading the log\<close>

text \<open>The containers that were acquired and released, in order, with their language.\<close>

fun acquisitions_of :: "effect list \<Rightarrow> (string \<times> string) list" where
  "acquisitions_of [] = []"
| "acquisitions_of (Acquired language got # es) = (language, got) # acquisitions_of es"
| "acquisitions_of (e # es) = acquisitions_of es"

fun releases_of :: "effect list \<Rightarrow> (string \<times> string) list" where
  "releases_of [] = []"
| "releases_of (Released language got # es) = (language, got) # releases_of es"
| "releases_of (e # es) = releases_of es"

text \<open>The containers that were destroyed with \<open>docker rm -f\<close>, in order.\<close>

fun destroyed_of :: "effect list \<Rightarrow> string list" where
  "destroyed_of [] = []"
| "destroyed_of (DockerRmF got # es) = got # destroyed_of es"
| "destroyed_of (e # es) = destroyed_of es"

text \<open>What a run has added to the log of the server it started from.\<close>

definition new_effects :: "server \<Rightarrow> server \<Rightarrow> effect list" where
  "new_effects s s' = drop (length (effects s)) (effects s')"

text \<open>
  Every container in a free list has \<open>pool\<close> in its name: the warm-up makes such names,
  and \<open>releaseContainer\<close> puts back no other.
\<close>

definition pool_ok :: "server \<Rightarrow> bool" where
  "pool_ok s =
     (\<forall>language pool got. containerPool s language = Some pool \<longrightarrow> got \<in> set pool
        \<longrightarrow> js_includes got ''pool'')"

text \<open>
  What \<open>releaseContainer\<close> does with the container \<open>got\<close> of a language whose free list is
  \<open>pool\<close>, seen from outside: the free lists \<open>pm\<close> with the list of the language set to
  \<open>pool\<close> become \<open>pm'\<close>, and \<open>es\<close> is added to the log.  The container is put at the end of
  the list and not destroyed, or it is destroyed and the list stays as it is.
\<close>

definition release_effect ::
  "string \<Rightarrow> string \<Rightarrow> string list \<Rightarrow> (string \<rightharpoonup> string list) \<Rightarrow> (string \<rightharpoonup> string list)
     \<Rightarrow> effect list \<Rightarrow> bool" where
  "release_effect language got pool pm pm' es =
     (if length pool < poolSize_or_2 language \<and> js_includes got ''pool''
      then pm' = pm(language \<mapsto> pool @ [got]) \<and> destroyed_of es = []
      else pm' = pm(language \<mapsto> pool) \<and> destroyed_of es = [got])"

text \<open>
  The shim that goes with a language: the text \<open>T\<close> of \<open>wasm_exec.js\<close> for \<open>go\<close>, the empty
  string for every other language.
\<close>

definition shim_of :: "string \<Rightarrow> string \<Rightarrow> string" where
  "shim_of T language = (if language = ''go'' then T else [])"

text \<open>
  What the entries of the cache have in common, for a set \<open>R\<close> of pairs of a language and
  a source (the requests that were compiled): every entry is stored under the key of a
  pair of \<open>R\<close>, and its shim field is defined and is the shim of the language of the pair.
\<close>

definition shim_inv :: "(string \<Rightarrow> string) \<Rightarrow> string \<Rightarrow> (string \<times> string) set \<Rightarrow> cache \<Rightarrow> bool" where
  "shim_inv H T R c =
     (\<forall>k e. cache_get c k = Some e \<longrightarrow>
        (\<exists>language code. (language, code) \<in> R \<and> k = getCacheKey H language code
           \<and> wasmExec e = Some (shim_of T language)))"

text \<open>
  The digest gives the request \<open>(language, code)\<close> no key of a pair of \<open>R\<close> that differs from
  it in being for \<open>go\<close> or not.  It is so for every \<open>R\<close> when no two texts have the same
  digest.
\<close>

definition no_collision :: "(string \<Rightarrow> string) \<Rightarrow> (string \<times> string) set \<Rightarrow> string \<Rightarrow> string \<Rightarrow> bool" where
  "no_collision H R language code =
     (\<forall>(language', code') \<in> R.
        getCacheKey H language' code' = getCacheKey H language code
        \<longrightarrow> (language' = ''go'') = (language = ''go''))"

text \<open>The pair of a request, if it has both fields.\<close>

definition requested :: "request \<Rightarrow> (string \<times> string) set" where
  "requested req =
     (case (body_language req, body_code req) of
        (Some language, Some code) \<Rightarrow> {(language, code)}
      | _ \<Rightarrow> {})"

text \<open>
  What one run of the compile job does to the cache: nothing, or one insertion under the
  key of the job, of an entry whose shim is defined: the text that was read from
  \<open>wasm_exec.js\<close> for \<open>go\<close>, the empty string for another language.
\<close>

definition stored :: "world \<Rightarrow> string \<Rightarrow> string \<Rightarrow> cache \<Rightarrow> cache \<Rightarrow> bool" where
  "stored w language cacheKey c c' =
     (c' = c \<or> (\<exists>wasmB shim. c' = cache_insert (now_clean w) cacheKey
                 \<lparr>wasm = wasmB, wasmExec = Some shim, timestamp = now_set w\<rparr> c
           \<and> (if language = ''go'' then read_shim_res w = Inr shim else shim = [])
           \<and> LANGUAGES language \<noteq> Undefined))"

section \<open>Properties of the admission queue\<close>

text \<open>
  What holds of the queue between any two pieces of code: the counter counts the jobs
  that were started and whose \<open>finally\<close> block has not run; it never passes the limit;
  a continuation waits only while the counter is at the limit; the jobs were started in
  the order of their calls, and the calls that were not started wait in that order; no
  call was made twice; and every started job is in flight, settled or delivered.
\<close>

definition adm_inv :: "admission \<Rightarrow> bool" where
  "adm_inv a =
     (activeCompilations a = int (length (executing a) + length (settling a))
      \<and> activeCompilations a \<le> MAX_CONCURRENT_COMPILATIONS
      \<and> (requestQueue a = [] \<or> activeCompilations a = MAX_CONCURRENT_COMPILATIONS)
      \<and> arrivals a = starts a @ requestQueue a
      \<and> distinct (arrivals a)
      \<and> mset (starts a)
          = mset (executing a) + mset (map fst (settling a)) + mset (map fst (delivered a)))"

text \<open>
  A burst of five calls, numbered 0 to 4, a state in the middle of it, and one way for
  the five jobs to complete (job 0 fails, the others succeed).
\<close>

definition burst :: "event list" where
  "burst = [Call 0, Call 1, Call 2, Call 3, Call 4]"

definition after_burst :: admission where
  "after_burst =
     \<lparr>activeCompilations = 4, requestQueue = [4], arrivals = [0, 1, 2, 3, 4],
      starts = [0, 1, 2, 3], executing = [0, 1, 2, 3], settling = [], delivered = []\<rparr>"

definition drain :: "event list" where
  "drain = [Settles 2 True, Resumes 2 True, Settles 0 False, Settles 4 True, Resumes 0 False,
            Settles 1 True, Settles 3 True, Resumes 4 True, Resumes 3 True, Resumes 1 True]"

definition after_drain :: admission where
  "after_drain =
     \<lparr>activeCompilations = 0, requestQueue = [], arrivals = [0, 1, 2, 3, 4],
      starts = [0, 1, 2, 3, 4], executing = [], settling = [],
      delivered = [(2, True), (0, False), (4, True), (3, True), (1, True)]\<rparr>"

definition mid_drain :: admission where
  "mid_drain =
     \<lparr>activeCompilations = 4, requestQueue = [4], arrivals = [0, 1, 2, 3, 4],
      starts = [0, 1, 2, 3], executing = [0, 1, 3], settling = [(2, False)], delivered = []\<rparr>"

section \<open>Sample inputs\<close>

text \<open>
  A stand-in for the digest that is its own argument, a world in which every command
  succeeds and the warm-ups finish in an order of their own, and requests.
\<close>

definition sample_digest :: "string \<Rightarrow> string" where
  "sample_digest t = t"

definition ok_world :: world where
  "ok_world =
     \<lparr>docker_version_res = None, warm_finished = [(''cpp'', 1), (''go'', 0), (''rust'', 0), (''cpp'', 0), (''go'', 2),
                       (''cpp'', 2), (''rust'', 1), (''go'', 1)],
      job_id = 0, mkdir_res = None,
      writeFile_res = None, now_temp = 7, docker_run_res = None, cp_in_res = None,
      compile_res = None, cp_out_res = None, cp_shim_res = None,
      read_wasm_res = Inr ''AGFzbQ=='', read_shim_res = Inr ''// shim'',
      now_clean = 5, now_set = 6, rm_res = None, rm_catch_ok = True\<rparr>"

definition cpp_request :: request where
  "cpp_request = \<lparr>body_language = Some ''cpp'', body_code = Some ''int main() {}''\<rparr>"

definition empty_request :: request where
  "empty_request = \<lparr>body_language = None, body_code = None\<rparr>"

definition go_request :: request where
  "go_request = \<lparr>body_language = Some ''go'', body_code = Some ''package main''\<rparr>"

definition python_request :: request where
  "python_request = \<lparr>body_language = Some ''python'', body_code = Some ''print(1)''\<rparr>"

definition no_source_request :: request where
  "no_source_request = \<lparr>body_language = Some ''cpp'', body_code = Some []\<rparr>"

text \<open>The server after a warm-up in which every container starts.\<close>

definition warm_server :: server where
  "warm_server = initPool ok_world init_server"

text \<open>
  The server after a start-up at which Docker could not be reached: the warm-up has
  given up, the pool is not ready and the free lists are empty.
\<close>

definition down_world :: world where
  "down_world =
     ok_world\<lparr>docker_version_res :=
       Some \<lparr>stderr = Some ''Cannot connect to the Docker daemon'',
             message = ''Command failed: docker version''\<rparr>\<rparr>"

definition cold_server :: server where
  "cold_server = initPool down_world init_server"

text \<open>
  A world in which the compiler of \<open>go\<close> fails without a word on its standard error:
  the message of the exception is then the one of \<open>exec\<close>, the command line and a line
  break.
\<close>

definition silent_failure :: js_error where
  \<open>silent_failure =
     \<lparr>stderr = Some [],
      message = ''Command failed: docker exec -w /src wasm-pool-go-0 sh -c "go build -p 4 -o output.wasm main.go && cp /usr/local/go/misc/wasm/wasm_exec.js wasm_exec.js"''
                @ [CHR 0x0A]\<rparr>\<close>

definition failing_world :: world where
  "failing_world = ok_world\<lparr>compile_res := Some silent_failure\<rparr>"

text \<open>The same, and the removal of the scratch directory fails as well.\<close>

definition stuck_world :: world where
  "stuck_world = failing_world\<lparr>rm_catch_ok := False\<rparr>"

definition cpp_config :: LanguageConfig where
  \<open>cpp_config =
     \<lparr>lang_id = ''cpp'', name = ''C++'', filename = ''main.cpp'',
      dockerImage = ''wasm-compiler-cpp'',
      compileCmd = ''bash -c "emcc main.cpp -o temp.wasm -s STANDALONE_WASM=1 -s PURE_WASI=1 -O0 -s ERROR_ON_UNDEFINED_SYMBOLS=0 && wasm-opt temp.wasm -o output.wasm --asyncify"'',
      poolSize = 3\<rparr>\<close>

text \<open>The bodies of the responses to the sample requests.\<close>

definition fresh_cpp_body :: body where
  "fresh_cpp_body =
     \<lparr>json_success = Some True, json_wasm = Some ''AGFzbQ=='', json_wasmExec = Some [],
      json_cached = None, json_error = None\<rparr>"

definition cached_cpp_body :: body where
  "cached_cpp_body =
     \<lparr>json_success = Some True, json_wasm = Some ''AGFzbQ=='', json_wasmExec = Some [],
      json_cached = Some True, json_error = None\<rparr>"

definition fresh_go_body :: body where
  "fresh_go_body =
     \<lparr>json_success = Some True, json_wasm = Some ''AGFzbQ=='', json_wasmExec = Some ''// shim'',
      json_cached = None, json_error = None\<rparr>"

definition cached_go_body :: body where
  "cached_go_body =
     \<lparr>json_success = Some True, json_wasm = Some ''AGFzbQ=='', json_wasmExec = Some ''// shim'',
      json_cached = Some True, json_error = None\<rparr>"

definition toString_request :: request where
  "toString_request = \<lparr>body_language = Some ''toString'', body_code = Some ''x''\<rparr>"

section \<open>The cache at its capacity\<close>

lemma cache_delete_filter: "cache_delete k c = filter (\<lambda>p. fst p \<noteq> k) c"
  by (induction c) auto

lemma cache_set_new: "k \<notin> fst ` set c \<Longrightarrow> cache_set k v c = c @ [(k, v)]"
  by (induction c) auto

lemma purge_expired_fresh:
  "list_all (\<lambda>p. \<not> now - timestamp (snd p) > CACHE_TTL) es \<Longrightarrow> purge_expired now es c = c"
  unfolding purge_expired_def
  by (induction es arbitrary: c) (auto split: prod.splits)

lemma cleanCache_fresh:
  "list_all (\<lambda>p. \<not> now - timestamp (snd p) > CACHE_TTL) c \<Longrightarrow> length c \<le> MAX_CACHE_SIZE
   \<Longrightarrow> cleanCache now c = c"
  by (simp add: cleanCache_def Let_def purge_expired_fresh)

lemma sample_key_inj: "sample_key i = sample_key j \<Longrightarrow> i = j"
  unfolding sample_key_def
  by (metis length_replicate nat.inject)

lemma insert_samples_all:
  "n \<le> Suc MAX_CACHE_SIZE \<Longrightarrow> insert_samples n = map (\<lambda>i. (sample_key i, sample_entry i)) [0..<n]"
proof (induction n)
  case 0
  then show ?case by (simp add: insert_samples_def)
next
  case (Suc n)
  let ?c = "map (\<lambda>i. (sample_key i, sample_entry i)) [0..<n]"
  have prev: "insert_samples n = ?c" using Suc by simp
  have fresh: "list_all (\<lambda>p. \<not> int n - timestamp (snd p) > CACHE_TTL) ?c"
    using Suc.prems by (auto simp: list_all_iff sample_entry_def CACHE_TTL_def MAX_CACHE_SIZE_def)
  have len: "length ?c \<le> MAX_CACHE_SIZE" using Suc.prems by simp
  have new: "sample_key n \<notin> fst ` set ?c"
    by (auto dest: sample_key_inj)
  have "insert_samples (Suc n) = cache_insert (int n) (sample_key n) (sample_entry n) (insert_samples n)"
    by (simp add: insert_samples_def)
  also have "\<dots> = ?c @ [(sample_key n, sample_entry n)]"
    unfolding prev cache_insert_def cleanCache_fresh[OF fresh len]
    by (rule cache_set_new[OF new])
  finally show ?case by simp
qed

text \<open>
  Claim C1 (capacity of the cache after an insert): the claim asks for at most
  \<open>MAX_CACHE_SIZE\<close> entries after every insert, and for the eviction of the oldest entry
  when one key more than the capacity is stored.  The server cleans before it stores,
  and evicts only when the map already holds more than \<open>MAX_CACHE_SIZE\<close> keys: after
  101 distinct keys, stored within the hour, the cache holds 101 entries, and the
  first of them is still among them.
\<close>

theorem C1_cache_exceeds_capacity:
  "MAX_CACHE_SIZE = 100 \<and> length (insert_samples 101) = 101
   \<and> cache_get (insert_samples 101) (sample_key 0) = Some (sample_entry 0)"
  using insert_samples_all[of 101]
  by (simp add: MAX_CACHE_SIZE_def upt_conv_Cons del: upt_Suc)

text \<open>
  The bound that the server does keep: from a cache with distinct keys and at most
  \<open>MAX_CACHE_SIZE + 1\<close> entries, the clean-up leaves at most \<open>MAX_CACHE_SIZE\<close> entries
  and the insertion at most one more.
\<close>

lemma purge_expired_filter:
  "purge_expired now es c
     = filter (\<lambda>p. fst p \<notin> fst ` {q \<in> set es. now - timestamp (snd q) > CACHE_TTL}) c"
  unfolding purge_expired_def
proof (induction es arbitrary: c)
  case Nil
  then show ?case by simp
next
  case (Cons e es)
  obtain k v where e: "e = (k, v)" by (cases e)
  show ?case
  proof (cases "now - timestamp v > CACHE_TTL")
    case True
    have "{q \<in> set (e # es). now - timestamp (snd q) > CACHE_TTL}
        = insert e {q \<in> set es. now - timestamp (snd q) > CACHE_TTL}"
      using True e by auto
    then show ?thesis
      using True e Cons.IH[of "cache_delete k c"]
      by (simp add: cache_delete_filter conj_commute)
  next
    case False
    have "{q \<in> set (e # es). now - timestamp (snd q) > CACHE_TTL}
        = {q \<in> set es. now - timestamp (snd q) > CACHE_TTL}"
      using False e by auto
    then show ?thesis using False e Cons.IH[of c] by simp
  qed
qed

lemma fold_delete_filter:
  "fold (\<lambda>(key, val) m. cache_delete key m) es c = filter (\<lambda>p. fst p \<notin> fst ` set es) c"
proof (induction es arbitrary: c)
  case Nil
  then show ?case by simp
next
  case (Cons e es)
  obtain k v where e: "e = (k, v)" by (cases e)
  show ?case using e Cons.IH[of "cache_delete k c"]
    by (simp add: cache_delete_filter conj_commute)
qed

lemma filter_same_length: "length (filter P xs) = length xs \<Longrightarrow> filter P xs = xs"
proof (induction xs)
  case Nil
  then show ?case by simp
next
  case (Cons x xs)
  have "P x"
  proof (rule ccontr)
    assume "\<not> P x"
    then have "length (filter P xs) = Suc (length xs)" using Cons.prems by simp
    moreover have "length (filter P xs) \<le> length xs" by (rule length_filter_le)
    ultimately show False by linarith
  qed
  then show ?case using Cons by simp
qed

lemma length_filter_key:
  "distinct (map fst c) \<Longrightarrow> k \<in> fst ` set c
   \<Longrightarrow> Suc (length (filter (\<lambda>p. fst p \<noteq> k) c)) = length c"
proof (induction c)
  case Nil
  then show ?case by simp
next
  case (Cons x c)
  show ?case
  proof (cases "fst x = k")
    case True
    then have "k \<notin> fst ` set c" using Cons.prems(1) by auto
    then have "filter (\<lambda>p. fst p \<noteq> k) c = c" by (auto simp: filter_id_conv)
    then show ?thesis using True by simp
  next
    case False
    then show ?thesis using Cons by auto
  qed
qed

lemma length_cache_set: "length (cache_set k v c) \<le> Suc (length c)"
  by (induction c) auto

lemma keys_cache_set: "set (map fst (cache_set k v c)) = insert k (set (map fst c))"
proof (induction c)
  case Nil
  then show ?case by simp
next
  case (Cons p c)
  obtain k' v' where p: "p = (k', v')" by (cases p)
  show ?case using Cons p by (cases "k' = k") auto
qed

lemma distinct_cache_set: "distinct (map fst c) \<Longrightarrow> distinct (map fst (cache_set k v c))"
proof (induction c)
  case Nil
  then show ?case by simp
next
  case (Cons p c)
  obtain k' v' where p: "p = (k', v')" by (cases p)
  show ?case
  proof (cases "k' = k")
    case True
    then show ?thesis using Cons.prems p by simp
  next
    case False
    have "k' \<notin> set (map fst (cache_set k v c))"
      using Cons.prems p False unfolding keys_cache_set by simp
    then show ?thesis using Cons p False by simp
  qed
qed

lemma cleanCache_bound:
  assumes d: "distinct (map fst c)" and n: "length c \<le> Suc MAX_CACHE_SIZE"
  shows "length (cleanCache now c) \<le> MAX_CACHE_SIZE \<and> distinct (map fst (cleanCache now c))"
proof -
  let ?c1 = "purge_expired now c c"
  have c1: "?c1 = filter (\<lambda>p. fst p \<notin> fst ` {q \<in> set c. now - timestamp (snd q) > CACHE_TTL}) c"
    by (rule purge_expired_filter)
  have le: "length ?c1 \<le> length c" unfolding c1 by simp
  have d1: "distinct (map fst ?c1)" unfolding c1 using d by (simp add: distinct_map_filter)
  show ?thesis
  proof (cases "length ?c1 > MAX_CACHE_SIZE")
    case False
    then show ?thesis using d1 by (simp add: cleanCache_def Let_def)
  next
    case True
    then have len: "length ?c1 = length c" "length c = Suc MAX_CACHE_SIZE" using le n by auto
    have same: "?c1 = c" using len(1) unfolding c1 by (rule filter_same_length)
    let ?sorted = "sort_key (\<lambda>(key, val). timestamp val) c"
    have "length ?sorted = Suc MAX_CACHE_SIZE" using len(2) by simp
    then obtain x rest where xs: "?sorted = x # rest" by (cases ?sorted) auto
    have xin: "x \<in> set c"
    proof -
      have "x \<in> set ?sorted" using xs by simp
      then show ?thesis by simp
    qed
    have res: "cleanCache now c = filter (\<lambda>p. fst p \<noteq> fst x) c"
      using True same len(2) xs
      by (simp add: cleanCache_def Let_def fold_delete_filter)
    have "Suc (length (filter (\<lambda>p. fst p \<noteq> fst x) c)) = length c"
      using d xin by (intro length_filter_key) auto
    then show ?thesis unfolding res using len(2) d by (simp add: distinct_map_filter)
  qed
qed

lemma cache_insert_bound:
  assumes "distinct (map fst c)" and "length c \<le> Suc MAX_CACHE_SIZE"
  shows "length (cache_insert now k v c) \<le> Suc MAX_CACHE_SIZE
       \<and> distinct (map fst (cache_insert now k v c))"
proof -
  note b = cleanCache_bound[OF assms, of now]
  have "length (cache_set k v (cleanCache now c)) \<le> Suc (length (cleanCache now c))"
    by (rule length_cache_set)
  then show ?thesis using b by (simp add: cache_insert_def distinct_cache_set)
qed

section \<open>The admission queue keeps its bound and its order\<close>

lemma length_remove1_in: "x \<in> set xs \<Longrightarrow> Suc (length (remove1 x xs)) = length xs"
  by (induction xs) auto

lemma mset_remove1_in: "x \<in> set xs \<Longrightarrow> add_mset x (mset (remove1 x xs)) = mset xs"
  by (induction xs) auto

lemma mset_fst_remove1_in:
  "(j, ok) \<in> set xs \<Longrightarrow> add_mset j (mset (map fst (remove1 (j, ok) xs))) = mset (map fst xs)"
  by (induction xs) auto

lemma adm_inv_init: "adm_inv init_admission"
  by (simp add: adm_inv_def init_admission_def MAX_CONCURRENT_COMPILATIONS_def)

lemma adm_inv_call:
  assumes "adm_inv a" "j \<notin> set (arrivals a)"
  shows "adm_inv (executeWithQueue j a)"
proof (cases "activeCompilations a < MAX_CONCURRENT_COMPILATIONS")
  case True
  then have q: "requestQueue a = []" using assms(1) by (auto simp: adm_inv_def)
  show ?thesis
    using assms True q
    by (auto simp: adm_inv_def executeWithQueue_def start_fn_def Let_def)
next
  case False
  then show ?thesis
    using assms
    by (auto simp: adm_inv_def executeWithQueue_def Let_def)
qed


lemma adm_inv_settles:
  assumes "adm_inv a" "j \<in> set (executing a)"
  shows "adm_inv (fn_settles j ok a)"
proof -
  have len: "length (executing a) = Suc (length (remove1 j (executing a)))"
    using length_remove1_in[OF assms(2)] by simp
  have ms: "mset (executing a) = add_mset j (mset (remove1 j (executing a)))"
    using mset_remove1_in[OF assms(2)] by simp
  have act: "activeCompilations a = int (length (executing a) + length (settling a))"
    and rest: "activeCompilations a \<le> MAX_CONCURRENT_COMPILATIONS"
      "requestQueue a = [] \<or> activeCompilations a = MAX_CONCURRENT_COMPILATIONS"
      "arrivals a = starts a @ requestQueue a" "distinct (arrivals a)"
    and st: "mset (starts a)
          = mset (executing a) + mset (map fst (settling a)) + mset (map fst (delivered a))"
    using assms(1) unfolding adm_inv_def by blast+
  have act': "activeCompilations a
      = int (length (remove1 j (executing a)) + length (settling a @ [(j, ok)]))"
    unfolding act len by simp
  have st': "mset (starts a) = mset (remove1 j (executing a))
       + mset (map fst (settling a @ [(j, ok)])) + mset (map fst (delivered a))"
    unfolding st ms by simp
  show ?thesis
    unfolding adm_inv_def fn_settles_def using act' st' rest by simp
qed

lemma finally_block_simps:
  "requestQueue a = [] \<Longrightarrow>
     finally_block a = a\<lparr>activeCompilations := activeCompilations a - 1\<rparr>"
  "requestQueue a = q # rest \<Longrightarrow>
     finally_block a = a\<lparr>activeCompilations := activeCompilations a, requestQueue := rest,
        starts := starts a @ [q], executing := executing a @ [q]\<rparr>"
  by (simp_all add: finally_block_def start_fn_def Let_def)

lemma adm_inv_resume:
  assumes "adm_inv a" "(j, ok) \<in> set (settling a)"
  shows "adm_inv (resume j ok a)"
proof -
  have len: "length (settling a) = Suc (length (remove1 (j, ok) (settling a)))"
    using length_remove1_in[OF assms(2)] by simp
  have ms: "mset (map fst (settling a)) = add_mset j (mset (map fst (remove1 (j, ok) (settling a))))"
    using mset_fst_remove1_in[OF assms(2)] by simp
  have act: "activeCompilations a = int (length (executing a) + length (settling a))"
    and le: "activeCompilations a \<le> MAX_CONCURRENT_COMPILATIONS"
    and full: "requestQueue a = [] \<or> activeCompilations a = MAX_CONCURRENT_COMPILATIONS"
    and fifo: "arrivals a = starts a @ requestQueue a" and dist: "distinct (arrivals a)"
    and st: "mset (starts a)
          = mset (executing a) + mset (map fst (settling a)) + mset (map fst (delivered a))"
    using assms(1) unfolding adm_inv_def by blast+
  let ?b = "a\<lparr>settling := remove1 (j, ok) (settling a), delivered := delivered a @ [(j, ok)]\<rparr>"
  have act': "activeCompilations a - 1
      = int (length (executing a) + length (remove1 (j, ok) (settling a)))"
    unfolding act len by simp
  have st': "mset (starts a) = mset (executing a)
       + mset (map fst (remove1 (j, ok) (settling a))) + mset (map fst (delivered a @ [(j, ok)]))"
    unfolding st ms by simp
  show ?thesis
  proof (cases "requestQueue a")
    case Nil
    then have "resume j ok a = ?b\<lparr>activeCompilations := activeCompilations a - 1\<rparr>"
      by (simp add: resume_def finally_block_simps(1))
    then show ?thesis
      unfolding adm_inv_def using act' st' le fifo dist Nil by simp
  next
    case (Cons q rest)
    then have r: "resume j ok a = ?b\<lparr>activeCompilations := activeCompilations a,
        requestQueue := rest, starts := starts a @ [q], executing := executing a @ [q]\<rparr>"
      by (simp add: resume_def finally_block_simps(2))
    have a4: "activeCompilations a = MAX_CONCURRENT_COMPILATIONS" using full Cons by simp
    have act2: "activeCompilations a
      = int (length (executing a @ [q]) + length (remove1 (j, ok) (settling a)))"
      unfolding act len by simp
    have st2: "mset (starts a @ [q]) = mset (executing a @ [q])
       + mset (map fst (remove1 (j, ok) (settling a))) + mset (map fst (delivered a @ [(j, ok)]))"
      using st' by simp
    show ?thesis
      unfolding adm_inv_def r using act2 st2 a4 fifo dist Cons by simp
  qed
qed

lemma adm_inv_step: "adm_inv a \<Longrightarrow> step e a = Some a' \<Longrightarrow> adm_inv a'"
  by (cases e) (auto simp: adm_inv_call adm_inv_settles adm_inv_resume split: if_splits)

lemma adm_inv_run: "adm_inv a \<Longrightarrow> run es a = Some a' \<Longrightarrow> adm_inv a'"
  by (induction es arbitrary: a) (auto split: option.splits dest: adm_inv_step)


lemma work_left_step:
  assumes "adm_inv a" "is_completion e" "step e a = Some a'"
  shows "Suc (work_left a') = work_left a"
proof (cases e)
  case (Call j) then show ?thesis using assms by simp
next
  case (Settles j ok)
  then have "j \<in> set (executing a)" and a': "a' = fn_settles j ok a"
    using assms(3) by (auto split: if_splits)
  then have "length (executing a) = Suc (length (remove1 j (executing a)))"
    using length_remove1_in by metis
  then show ?thesis unfolding a' by (simp add: work_left_def fn_settles_def)
next
  case (Resumes j ok)
  then have in': "(j, ok) \<in> set (settling a)" and a': "a' = resume j ok a"
    using assms(3) by (auto split: if_splits)
  have len: "length (settling a) = Suc (length (remove1 (j, ok) (settling a)))"
    using length_remove1_in[OF in'] by simp
  show ?thesis
  proof (cases "requestQueue a")
    case Nil
    then show ?thesis unfolding a' using len
      by (simp add: work_left_def resume_def finally_block_simps(1))
  next
    case (Cons q rest)
    then show ?thesis unfolding a' using len
      by (simp add: work_left_def resume_def finally_block_simps(2))
  qed
qed

lemma work_left_run:
  "adm_inv a \<Longrightarrow> list_all is_completion cs \<Longrightarrow> run cs a = Some a'
   \<Longrightarrow> work_left a' + length cs = work_left a"
proof (induction cs arbitrary: a)
  case Nil then show ?case by simp
next
  case (Cons e cs)
  then obtain a1 where s: "step e a = Some a1" and r: "run cs a1 = Some a'"
    by (auto split: option.splits)
  have i1: "adm_inv a1" using Cons.prems(1) s by (rule adm_inv_step)
  have c: "list_all is_completion cs" and e: "is_completion e" using Cons.prems(2) by auto
  have "Suc (work_left a1) = work_left a" using Cons.prems(1) e s by (rule work_left_step)
  moreover have "work_left a' + length cs = work_left a1" using i1 c r by (rule Cons.IH)
  ultimately show ?case by simp
qed

lemma adm_inv_progress:
  "adm_inv a \<Longrightarrow> 0 < work_left a \<Longrightarrow> executing a \<noteq> [] \<or> settling a \<noteq> []"
  unfolding adm_inv_def work_left_def MAX_CONCURRENT_COMPILATIONS_def by auto

lemma adm_inv_nodrop:
  "adm_inv a \<Longrightarrow> mset (arrivals a) = mset (requestQueue a) + mset (executing a)
      + mset (map fst (settling a)) + mset (map fst (delivered a))"
  by (simp add: adm_inv_def)

lemma adm_inv_bound:
  "adm_inv a \<Longrightarrow> int (length (executing a)) \<le> MAX_CONCURRENT_COMPILATIONS"
  unfolding adm_inv_def by auto

lemma adm_inv_drained:
  "adm_inv a \<Longrightarrow> work_left a = 0 \<Longrightarrow>
     requestQueue a = [] \<and> executing a = [] \<and> settling a = []
     \<and> mset (map fst (delivered a)) = mset (arrivals a)"
  by (simp add: adm_inv_def work_left_def)

text \<open>
  Claim C3 (concurrency bound, no job dropped, all jobs complete).  In every state that
  a run of the queue reaches from the initial one: at most \<open>MAX_CONCURRENT_COMPILATIONS\<close>
  jobs are in flight; every call is waiting, in flight, settled or delivered, and in one
  of them only; while work is left, a job is in flight or settled, so that a completion
  step is possible; and every sequence of completion steps (promises that settle, code
  that resumes) uses up the work that is left, one unit a step, so that after
  \<open>work_left\<close> of them nothing waits, nothing is in flight and every call has been
  delivered.
\<close>

theorem C3_concurrency_bound:
  assumes "run es init_admission = Some a"
  shows "int (length (executing a)) \<le> MAX_CONCURRENT_COMPILATIONS
     \<and> mset (arrivals a) = mset (requestQueue a) + mset (executing a)
          + mset (map fst (settling a)) + mset (map fst (delivered a))
     \<and> (0 < work_left a \<longrightarrow> executing a \<noteq> [] \<or> settling a \<noteq> [])
     \<and> (\<forall>cs a'. list_all is_completion cs \<and> run cs a = Some a' \<longrightarrow>
           work_left a' + length cs = work_left a
           \<and> (length cs = work_left a \<longrightarrow>
                requestQueue a' = [] \<and> executing a' = [] \<and> settling a' = []
                \<and> mset (map fst (delivered a')) = mset (arrivals a)))"
proof -
  have inv: "adm_inv a" using adm_inv_init assms by (rule adm_inv_run)
  have later: "work_left a' + length cs = work_left a
           \<and> (length cs = work_left a \<longrightarrow>
                requestQueue a' = [] \<and> executing a' = [] \<and> settling a' = []
                \<and> mset (map fst (delivered a')) = mset (arrivals a))"
    if c: "list_all is_completion cs" and r: "run cs a = Some a'" for cs a'
  proof -
    have inv': "adm_inv a'" using inv r by (rule adm_inv_run)
    have w: "work_left a' + length cs = work_left a" using inv c r by (rule work_left_run)
    have same: "arrivals a' = arrivals a"
      using c r
    proof (induction cs arbitrary: a)
      case Nil then show ?case by simp
    next
      case (Cons e cs)
      then obtain a1 where s: "step e a = Some a1" and r1: "run cs a1 = Some a'"
        by (auto split: option.splits)
      have "arrivals a1 = arrivals a"
        using s Cons.prems(1)
        by (cases e) (auto simp: fn_settles_def resume_def finally_block_def start_fn_def Let_def
            split: if_splits list.splits)
      moreover have "arrivals a' = arrivals a1" using Cons.IH[OF _ r1] Cons.prems(1) by simp
      ultimately show ?case by simp
    qed
    show ?thesis using w adm_inv_drained[OF inv'] same by auto
  qed
  show ?thesis
    using adm_inv_bound[OF inv] adm_inv_nodrop[OF inv] adm_inv_progress[OF inv] later by blast
qed

lemma run_burst: "run burst init_admission = Some after_burst"
  by (simp add: burst_def after_burst_def init_admission_def executeWithQueue_def start_fn_def
      MAX_CONCURRENT_COMPILATIONS_def Let_def)

lemma run_drain: "run drain after_burst = Some after_drain"
  by (simp add: drain_def after_burst_def after_drain_def fn_settles_def resume_def
      finally_block_def start_fn_def Let_def)

text \<open>
  The burst of five calls: four jobs run, the fifth waits, and the ten completion steps
  of \<open>drain\<close> deliver all five.
\<close>

theorem C3_witness:
  "run burst init_admission = Some after_burst
   \<and> length (executing after_burst) = 4 \<and> requestQueue after_burst = [4]
   \<and> list_all is_completion drain \<and> run drain after_burst = Some after_drain
   \<and> length drain = work_left after_burst
   \<and> executing after_drain = [] \<and> mset (map fst (delivered after_drain)) = mset (arrivals after_burst)"
  using C3_concurrency_bound[OF run_burst] run_burst run_drain
  by (simp add: drain_def after_burst_def after_drain_def work_left_def)

text \<open>
  Claim C4 (one continuation released at each completion, in arrival order).  In every
  state that a run reaches, the jobs started so far followed by the waiting ones are the
  calls in the order they were made; and when the code of a settled job resumes, whether
  the job succeeded or failed, its \<open>finally\<close> block starts the head of the queue and
  nothing else, or nothing if no continuation waits.
\<close>

theorem C4_fifo_release:
  assumes "run es init_admission = Some a"
  shows "arrivals a = starts a @ requestQueue a
     \<and> (\<forall>j ok. (j, ok) \<in> set (settling a) \<longrightarrow>
          step (Resumes j ok) a = Some (resume j ok a)
          \<and> (case requestQueue a of
                [] \<Rightarrow> requestQueue (resume j ok a) = []
                       \<and> starts (resume j ok a) = starts a
                       \<and> executing (resume j ok a) = executing a
              | next # rest \<Rightarrow> requestQueue (resume j ok a) = rest
                       \<and> starts (resume j ok a) = starts a @ [next]
                       \<and> executing (resume j ok a) = executing a @ [next]))"
proof -
  have inv: "adm_inv a" using adm_inv_init assms by (rule adm_inv_run)
  then have "arrivals a = starts a @ requestQueue a" unfolding adm_inv_def by blast
  moreover have "requestQueue a = [] \<Longrightarrow> requestQueue (resume j ok a) = []
                       \<and> starts (resume j ok a) = starts a
                       \<and> executing (resume j ok a) = executing a" for j ok
    by (simp add: resume_def finally_block_simps(1))
  moreover have "requestQueue a = q # rest \<Longrightarrow> requestQueue (resume j ok a) = rest
                       \<and> starts (resume j ok a) = starts a @ [q]
                       \<and> executing (resume j ok a) = executing a @ [q]" for j ok q rest
    by (simp add: resume_def finally_block_simps(2))
  ultimately show ?thesis by (auto split: list.splits)
qed

lemma run_mid: "run (burst @ [Settles 2 False]) init_admission = Some mid_drain"
  by (simp add: burst_def mid_drain_def init_admission_def executeWithQueue_def start_fn_def
      fn_settles_def MAX_CONCURRENT_COMPILATIONS_def Let_def)

text \<open>
  After the burst, job 2 fails: when its code resumes, job 4, the only one waiting, is
  started.
\<close>

theorem C4_witness:
  "run (burst @ [Settles 2 False]) init_admission = Some mid_drain
   \<and> (2, False) \<in> set (settling mid_drain)
   \<and> arrivals mid_drain = starts mid_drain @ requestQueue mid_drain
   \<and> requestQueue (resume 2 False mid_drain) = []
   \<and> starts (resume 2 False mid_drain) = [0, 1, 2, 3, 4]
   \<and> executing (resume 2 False mid_drain) = [0, 1, 3, 4]"
  using C4_fifo_release[OF run_mid] run_mid
  by (simp add: mid_drain_def resume_def finally_block_def start_fn_def Let_def)

section \<open>The paths of the handler\<close>

lemma log_fields [simp]:
  "compilationCache (log e s) = compilationCache s"
  "admission_queue (log e s) = admission_queue s"
  "containerPool (log e s) = containerPool s"
  "poolReady (log e s) = poolReady s"
  "effects (log e s) = effects s @ [e]"
  by (simp_all add: log_def)

lemma fold_start_warm_frame:
  "compilationCache (fold start_warm ts s) = compilationCache s
   \<and> admission_queue (fold start_warm ts s) = admission_queue s
   \<and> containerPool (fold start_warm ts s) = containerPool s"
  by (induction ts arbitrary: s) (simp_all add: start_warm_def)

lemma fold_push_warm_frame:
  "compilationCache (fold push_warm ts s) = compilationCache s
   \<and> admission_queue (fold push_warm ts s) = admission_queue s
   \<and> effects (fold push_warm ts s) = effects s"
  by (induction ts arbitrary: s) (simp_all add: push_warm_def split: option.splits)

lemma initPool_frame:
  "compilationCache (initPool w s) = compilationCache s
   \<and> admission_queue (initPool w s) = admission_queue s"
  by (simp add: initPool_def Let_def fold_start_warm_frame fold_push_warm_frame
      split: option.splits)


lemma handle_missing:
  assumes "body_language req = None \<or> body_language req = Some []
           \<or> body_code req = None \<or> body_code req = Some []"
  shows "handle H w req s
         = (Response 400 (error_body ''Missing language or code''),
            if poolReady s then s else initPool w s)"
  using assms by (auto simp: handle_def Let_def split: option.splits)

lemma handle_unsupported:
  assumes "body_language req = Some language" "body_code req = Some code"
    "language \<noteq> []" "code \<noteq> []" "LANGUAGES language = Undefined"
  shows "handle H w req s
         = (Response 400 (error_body ''Unsupported language''),
            if poolReady s then s else initPool w s)"
  using assms by (simp add: handle_def Let_def)

lemma handle_hit:
  assumes "body_language req = Some language" "body_code req = Some code"
    "language \<noteq> []" "code \<noteq> []" "LANGUAGES language \<noteq> Undefined"
    "cache_get (compilationCache s) (getCacheKey H language code) = Some cached"
  shows "handle H w req s
         = (Response 200 \<lparr>json_success = Some True, json_wasm = Some (wasm cached),
                           json_wasmExec = wasmExec cached, json_cached = Some True,
                           json_error = None\<rparr>,
            if poolReady s then s else initPool w s)"
  using assms by (simp add: handle_def Let_def initPool_frame)

lemma handle_miss:
  assumes "body_language req = Some language" "body_code req = Some code"
    "language \<noteq> []" "code \<noteq> []" "LANGUAGES language \<noteq> Undefined"
    "cache_get (compilationCache s) (getCacheKey H language code) = None"
  shows "handle H w req s
         = (let s1 = (if poolReady s then s else initPool w s);
                s2 = s1\<lparr>admission_queue := executeWithQueue (job_id w) (admission_queue s1)\<rparr>
            in if activeCompilations (admission_queue s) < MAX_CONCURRENT_COMPILATIONS
               then complete_job w language code (getCacheKey H language code) s2
               else (Pending, s2))"
  using assms by (simp add: handle_def Let_def initPool_frame)

text \<open>
  Claim C9 (an empty source is a missing source).  A request whose \<open>code\<close> is the empty
  string is answered with status 400 and the error \<open>Missing language or code\<close>,
  whatever its language and whatever the state of the server.
\<close>

theorem C9_empty_source_rejected:
  assumes "body_code req = Some []"
  shows "fst (handle H w req s) = Response 400 (error_body ''Missing language or code'')"
  using assms by (simp add: handle_missing)

section \<open>Requests that fail validation\<close>

lemma acquisitions_of_append [simp]:
  "acquisitions_of (xs @ ys) = acquisitions_of xs @ acquisitions_of ys"
  by (induction xs rule: acquisitions_of.induct) simp_all

lemma releases_of_append [simp]:
  "releases_of (xs @ ys) = releases_of xs @ releases_of ys"
  by (induction xs rule: releases_of.induct) simp_all

lemma destroyed_of_append [simp]:
  "destroyed_of (xs @ ys) = destroyed_of xs @ destroyed_of ys"
  by (induction xs rule: destroyed_of.induct) simp_all

lemma fold_start_warm_acq:
  "acquisitions_of (effects (fold start_warm ts s)) = acquisitions_of (effects s)"
  by (induction ts arbitrary: s) (simp_all add: start_warm_def)

lemma initPool_acq:
  "acquisitions_of (effects (initPool w s)) = acquisitions_of (effects s)"
  by (simp add: initPool_def Let_def fold_start_warm_acq fold_push_warm_frame
      split: option.splits)

text \<open>
  Claim C8, amended (validation errors leave the server as it is, the warm-up apart).
  A request without a language or without a source (missing or empty), or with a
  language that the registry reads as \<open>undefined\<close>, is answered with status 400; the
  cache and the admission queue are unchanged and no container is acquired; the server
  is the one before the request if the pool was ready, and the one that \<open>initPool\<close>
  leaves otherwise, since the handler awaits the warm-up before it looks at the
  request.
\<close>

theorem C8_validation_frame:
  assumes "body_language req = None \<or> body_language req = Some []
           \<or> body_code req = None \<or> body_code req = Some []
           \<or> (\<exists>language. body_language req = Some language \<and> LANGUAGES language = Undefined)"
  shows "(fst (handle H w req s) = Response 400 (error_body ''Missing language or code'')
          \<or> fst (handle H w req s) = Response 400 (error_body ''Unsupported language''))
       \<and> snd (handle H w req s) = (if poolReady s then s else initPool w s)
       \<and> compilationCache (snd (handle H w req s)) = compilationCache s
       \<and> admission_queue (snd (handle H w req s)) = admission_queue s
       \<and> acquisitions_of (effects (snd (handle H w req s))) = acquisitions_of (effects s)"
proof -
  consider (missing) "body_language req = None \<or> body_language req = Some []
           \<or> body_code req = None \<or> body_code req = Some []"
    | (unsupported) language code where "body_language req = Some language"
        "body_code req = Some code" "language \<noteq> []" "code \<noteq> []" "LANGUAGES language = Undefined"
    using assms by (cases "body_code req") auto
  then show ?thesis
  proof cases
    case missing
    then show ?thesis by (simp add: handle_missing initPool_frame initPool_acq)
  next
    case unsupported
    then show ?thesis by (simp add: handle_unsupported initPool_frame initPool_acq)
  qed
qed

text \<open>
  A request for \<open>python\<close> to a server whose pool is ready.
\<close>

theorem C8_witness:
  "fst (handle sample_digest ok_world \<lparr>body_language = Some ''python'', body_code = Some ''print(1)''\<rparr>
         (initPool ok_world init_server))
     = Response 400 (error_body ''Unsupported language'')
   \<and> snd (handle sample_digest ok_world \<lparr>body_language = Some ''python'', body_code = Some ''print(1)''\<rparr>
         (initPool ok_world init_server))
     = initPool ok_world init_server"
proof -
  have u: "LANGUAGES ''python'' = Undefined"
    by (simp add: LANGUAGES_def LANGUAGES_own_def object_prototype_keys_def)
  have r: "poolReady (initPool ok_world init_server)"
    by (simp add: initPool_def init_server_def ok_world_def Let_def)
  show ?thesis
    using C8_validation_frame[of "\<lparr>body_language = Some ''python'', body_code = Some ''print(1)''\<rparr>"
        sample_digest ok_world "initPool ok_world init_server"] u r
    by (simp add: handle_unsupported)
qed

text \<open>
  Claim C8 as stated fails: a request without language and source, sent to a server
  whose warm-up had given up at the start, runs the warm-up and fills the free list of
  \<open>cpp\<close>.
\<close>

theorem C8_counterexample:
  "\<not> poolReady cold_server \<and> containerPool cold_server ''cpp'' = Some []
   \<and> fst (handle sample_digest ok_world empty_request cold_server)
       = Response 400 (error_body ''Missing language or code'')
   \<and> containerPool (snd (handle sample_digest ok_world empty_request cold_server)) ''cpp''
       = Some [''wasm-pool-cpp-1'', ''wasm-pool-cpp-0'', ''wasm-pool-cpp-2'']"
  by code_simp

section \<open>One run of the compile job\<close>

lemma compile_in_container_Inr:
  assumes "compile_in_container w language config got s = (Inr (wasmB, shim), s')"
  shows "read_wasm_res w = Inr wasmB"
    and "language = ''go'' \<Longrightarrow> read_shim_res w = Inr shim"
    and "language \<noteq> ''go'' \<Longrightarrow> shim = []"
  using assms
  by (auto simp: compile_in_container_def Let_def split: option.splits sum.splits if_splits)

lemma compile_in_container_frame:
  assumes "compile_in_container w language config got s = (r, s')"
  shows "containerPool s' = containerPool s \<and> compilationCache s' = compilationCache s
     \<and> admission_queue s' = admission_queue s
     \<and> (\<exists>es. effects s' = effects s @ es \<and> acquisitions_of es = [] \<and> releases_of es = []
              \<and> RmScratch \<notin> set es \<and> destroyed_of es = [])"
  using assms
  by (auto simp: compile_in_container_def Let_def split: option.splits sum.splits if_splits)


lemma js_includes_Nil [simp]: "\<not> js_includes [] ''pool''"
  by (simp add: js_includes_def)

lemma pool_ok_cong: "containerPool s' = containerPool s \<Longrightarrow> pool_ok s' = pool_ok s"
  by (simp add: pool_ok_def)

lemma pool_of_Some [simp]:
  "containerPool s language = Some pool \<Longrightarrow> pool_of s language = Array pool"
  by (simp add: pool_of_def)

lemma pool_of_log [simp]: "pool_of (log e s) language = pool_of s language"
  by (simp add: pool_of_def)

lemma LANGUAGES_Own_not_inherited:
  "LANGUAGES language = Own config \<Longrightarrow> language \<notin> set object_prototype_keys"
  by (auto simp: LANGUAGES_def LANGUAGES_own_def object_prototype_keys_def split: if_splits)

lemma getContainer_own:
  assumes "getContainer w language s = (Inr got, s')"
    and "language \<notin> set object_prototype_keys"
  shows "\<exists>pool. containerPool s language = Some pool"
  using assms by (cases "containerPool s language") (auto simp: getContainer_def pool_of_def)

lemma getContainer_Cons:
  assumes "containerPool s language = Some (first # rest)"
  shows "getContainer w language s
         = (Inr first,
            log (Acquired language first) (s\<lparr>containerPool := (containerPool s)(language \<mapsto> rest)\<rparr>))"
  using assms by (simp add: getContainer_def)

lemma getContainer_Nil:
  assumes "containerPool s language = Some []"
  shows "getContainer w language s = create_temp w language s"
  using assms by (simp add: getContainer_def)

lemma create_temp_Inr:
  assumes "create_temp w language s = (Inr got, s')"
  shows "got = ''wasm-temp-'' @ language @ ''-'' @ string_of_nat (now_temp w)"
    and "s' = log (Acquired language got) (log (DockerRun got (image_of (LANGUAGES language))) s)"
  using assms by (auto simp: create_temp_def Let_def split: if_splits option.splits)

lemma getContainer_Inr:
  assumes run: "getContainer w language s = (Inr got, s')"
    and own: "language \<notin> set object_prototype_keys"
  shows "\<exists>es. effects s' = effects s @ es \<and> acquisitions_of es = [(language, got)]
              \<and> releases_of es = [] \<and> RmScratch \<notin> set es \<and> destroyed_of es = []"
    and "\<exists>pool. containerPool s language = Some pool
           \<and> containerPool s' = (containerPool s)(language \<mapsto> tl pool)"
    and "compilationCache s' = compilationCache s"
    and "admission_queue s' = admission_queue s"
    and "pool_ok s \<Longrightarrow> got \<noteq> [] \<and> pool_ok s'"
proof -
  obtain pool where p: "containerPool s language = Some pool"
    using getContainer_own[OF run own] by blast
  let ?P = "(\<exists>es. effects s' = effects s @ es \<and> acquisitions_of es = [(language, got)]
              \<and> releases_of es = [] \<and> RmScratch \<notin> set es \<and> destroyed_of es = [])
     \<and> containerPool s' = (containerPool s)(language \<mapsto> tl pool)
     \<and> compilationCache s' = compilationCache s
     \<and> admission_queue s' = admission_queue s
     \<and> (pool_ok s \<longrightarrow> got \<noteq> [] \<and> pool_ok s')"
  have ?P
  proof (cases pool)
    case Nil
    have c: "create_temp w language s = (Inr got, s')"
      using run getContainer_Nil[OF p[unfolded Nil]] by simp
    note ct = create_temp_Inr[OF c]
    have "(containerPool s)(language \<mapsto> []) = containerPool s"
      using p Nil by (simp add: map_upd_triv)
    moreover have "got \<noteq> []" using ct(1) by simp
    moreover have "pool_ok s \<longrightarrow> pool_ok s'" unfolding ct(2) by (simp add: pool_ok_def)
    ultimately show ?thesis unfolding ct(2) Nil by simp
  next
    case (Cons first rest)
    have g: "got = first"
      and s': "s' = log (Acquired language first) (s\<lparr>containerPool := (containerPool s)(language \<mapsto> rest)\<rparr>)"
      using run getContainer_Cons[OF p[unfolded Cons], of w] by auto
    have "got \<noteq> [] \<and> pool_ok s'" if ok: "pool_ok s"
    proof -
      have "js_includes first ''pool''" using ok p Cons unfolding pool_ok_def by auto
      then have "got \<noteq> []" unfolding g by auto
      moreover have "pool_ok s'"
        unfolding pool_ok_def s'
      proof (intro allI impI)
        fix language' pool' got'
        assume a: "containerPool (log (Acquired language first)
            (s\<lparr>containerPool := (containerPool s)(language \<mapsto> rest)\<rparr>)) language' = Some pool'"
          and b: "got' \<in> set pool'"
        show "js_includes got' ''pool''"
        proof (cases "language' = language")
          case True
          then have "pool' = rest" using a by simp
          then have "got' \<in> set pool" using b Cons by simp
          then show ?thesis using ok p unfolding pool_ok_def by blast
        next
          case False
          then have "containerPool s language' = Some pool'" using a by simp
          then show ?thesis using ok b unfolding pool_ok_def by blast
        qed
      qed
      ultimately show ?thesis by simp
    qed
    then show ?thesis unfolding s' g Cons by simp
  qed
  then show "\<exists>es. effects s' = effects s @ es \<and> acquisitions_of es = [(language, got)]
              \<and> releases_of es = [] \<and> RmScratch \<notin> set es \<and> destroyed_of es = []"
    and "\<exists>pool. containerPool s language = Some pool
           \<and> containerPool s' = (containerPool s)(language \<mapsto> tl pool)"
    and "compilationCache s' = compilationCache s"
    and "admission_queue s' = admission_queue s"
    and "pool_ok s \<Longrightarrow> got \<noteq> [] \<and> pool_ok s'"
    using p by blast+
qed

lemma getContainer_Inl:
  assumes "getContainer w language s = (Inl e, s')"
  shows "(\<exists>es. effects s' = effects s @ es \<and> acquisitions_of es = []
              \<and> releases_of es = [] \<and> RmScratch \<notin> set es \<and> destroyed_of es = [])
       \<and> containerPool s' = containerPool s \<and> compilationCache s' = compilationCache s
       \<and> admission_queue s' = admission_queue s"
  using assms
  by (auto simp: getContainer_def create_temp_def Let_def
      split: pool_value.splits option.splits list.splits if_splits)

lemma getContainer_cache:
  "getContainer w language s = (r, s') \<Longrightarrow> compilationCache s' = compilationCache s"
  by (auto simp: getContainer_def create_temp_def Let_def
      split: pool_value.splits option.splits list.splits if_splits)

lemma release_effect_upd:
  "release_effect language got pool (pm(language \<mapsto> pool)) pm' es
   = release_effect language got pool pm pm' es"
  by (simp add: release_effect_def)

lemma release_effect_cong:
  "destroyed_of es' = destroyed_of es
   \<Longrightarrow> release_effect language got pool pm pm' es' = release_effect language got pool pm pm' es"
  by (simp add: release_effect_def)

lemma releaseContainer_defined:
  assumes "containerPool s language = Some pool"
  shows "fst (releaseContainer language got s) = None"
    and "\<exists>es. effects (snd (releaseContainer language got s)) = effects s @ es
              \<and> acquisitions_of es = [] \<and> releases_of es = [(language, got)]
              \<and> RmScratch \<notin> set es
              \<and> release_effect language got pool (containerPool s)
                   (containerPool (snd (releaseContainer language got s))) es"
    and "containerPool (snd (releaseContainer language got s)) language \<noteq> None"
    and "compilationCache (snd (releaseContainer language got s)) = compilationCache s"
    and "admission_queue (snd (releaseContainer language got s)) = admission_queue s"
  using assms by (auto simp: releaseContainer_def Let_def release_effect_def map_upd_triv)

lemma releaseContainer_pool_ok:
  assumes "pool_ok s"
  shows "pool_ok (snd (releaseContainer language got s))"
proof (cases "containerPool s language")
  case None
  then have "containerPool (snd (releaseContainer language got s)) = containerPool s"
    by (simp add: releaseContainer_def Let_def pool_of_def)
  then show ?thesis using assms pool_ok_cong by blast
next
  case (Some pool)
  show ?thesis
  proof (cases "length pool < poolSize_or_2 language \<and> js_includes got ''pool''")
    case True
    then have "snd (releaseContainer language got s)
        = (log (Released language got) s)\<lparr>containerPool := (containerPool s)(language \<mapsto> pool @ [got])\<rparr>"
      using Some by (simp add: releaseContainer_def Let_def)
    then show ?thesis
      using assms Some True unfolding pool_ok_def
      by (auto split: if_splits)
  next
    case False
    then have "snd (releaseContainer language got s)
        = log (DockerRmF got) (log (Released language got) s)"
      using Some by (auto simp: releaseContainer_def Let_def)
    then show ?thesis using assms unfolding pool_ok_def by simp
  qed
qed


lemma try_with_container_props:
  assumes run: "try_with_container w language cacheKey config got l4 = (r, l)"
    and pool: "containerPool (srv l4) language = Some pool"
  shows "containerName l = containerName l4"
    and "\<exists>es. effects (srv l) = effects (srv l4) @ es \<and> acquisitions_of es = []
           \<and> releases_of es = (case r of Inr b \<Rightarrow> [(language, got)] | Inl e \<Rightarrow> [])
           \<and> (case r of
                 Inr b \<Rightarrow> RmScratch \<in> set es \<and> \<not> scratch l
                   \<and> release_effect language got pool (containerPool (srv l4))
                        (containerPool (srv l)) es
               | Inl e \<Rightarrow> scratch l = scratch l4 \<and> containerPool (srv l) = containerPool (srv l4)
                   \<and> destroyed_of es = [])"
    and "containerPool (srv l) language \<noteq> None"
    and "admission_queue (srv l) = admission_queue (srv l4)"
proof -
  obtain rc sv1 where c: "compile_in_container w language config got (srv l4) = (rc, sv1)"
    by (cases "compile_in_container w language config got (srv l4)")
  note f = compile_in_container_frame[OF c]
  then obtain es1 where es1: "effects sv1 = effects (srv l4) @ es1" "acquisitions_of es1 = []"
    "releases_of es1 = []" "RmScratch \<notin> set es1" "destroyed_of es1 = []" by blast
  have cp1: "containerPool sv1 = containerPool (srv l4)" using f by simp
  have pool1: "containerPool sv1 language = Some pool" using cp1 pool by simp
  show "containerName l = containerName l4"
    using run c
    by (auto simp: try_with_container_def Let_def split: sum.splits option.splits prod.splits)
  show "containerPool (srv l) language \<noteq> None"
  proof (cases rc)
    case (Inl e)
    then show ?thesis using run c pool1 by (auto simp: try_with_container_def)
  next
    case (Inr p)
    obtain wasmB shim where p: "p = (wasmB, shim)" by (cases p)
    let ?sv2 = "sv1\<lparr>compilationCache :=
                   cache_insert (now_clean w) cacheKey
                     \<lparr>wasm = wasmB, wasmExec = Some shim, timestamp = now_set w\<rparr>
                     (compilationCache sv1)\<rparr>"
    let ?s6 = "log (DockerExec got ''rm -rf /src/*'') (log RmScratch ?sv2)"
    have "containerPool ?s6 language = Some pool" using pool1 by simp
    note rel = releaseContainer_defined[OF this, of got]
    show ?thesis
      using run c Inr p pool1 rel(1,3)
      by (auto simp: try_with_container_def Let_def split: option.splits prod.splits)
  qed
  show "admission_queue (srv l) = admission_queue (srv l4)"
  proof (cases rc)
    case (Inl e)
    then show ?thesis using run c f by (auto simp: try_with_container_def)
  next
    case (Inr p)
    obtain wasmB shim where p: "p = (wasmB, shim)" by (cases p)
    let ?sv2 = "sv1\<lparr>compilationCache :=
                   cache_insert (now_clean w) cacheKey
                     \<lparr>wasm = wasmB, wasmExec = Some shim, timestamp = now_set w\<rparr>
                     (compilationCache sv1)\<rparr>"
    let ?s6 = "log (DockerExec got ''rm -rf /src/*'') (log RmScratch ?sv2)"
    have "containerPool ?s6 language = Some pool" using pool1 by simp
    note rel = releaseContainer_defined[OF this, of got]
    show ?thesis
      using run c Inr p f rel(1,5)
      by (auto simp: try_with_container_def Let_def split: option.splits prod.splits)
  qed
  show "\<exists>es. effects (srv l) = effects (srv l4) @ es \<and> acquisitions_of es = []
           \<and> releases_of es = (case r of Inr b \<Rightarrow> [(language, got)] | Inl e \<Rightarrow> [])
           \<and> (case r of
                 Inr b \<Rightarrow> RmScratch \<in> set es \<and> \<not> scratch l
                   \<and> release_effect language got pool (containerPool (srv l4))
                        (containerPool (srv l)) es
               | Inl e \<Rightarrow> scratch l = scratch l4 \<and> containerPool (srv l) = containerPool (srv l4)
                   \<and> destroyed_of es = [])"
  proof (cases rc)
    case (Inl e)
    then have "r = Inl e" "l = l4\<lparr>srv := sv1\<rparr>"
      using run c by (auto simp: try_with_container_def)
    then show ?thesis using es1 cp1 by simp
  next
    case (Inr p)
    obtain wasmB shim where p: "p = (wasmB, shim)" by (cases p)
    let ?sv2 = "sv1\<lparr>compilationCache :=
                   cache_insert (now_clean w) cacheKey
                     \<lparr>wasm = wasmB, wasmExec = Some shim, timestamp = now_set w\<rparr>
                     (compilationCache sv1)\<rparr>"
    let ?s6 = "log (DockerExec got ''rm -rf /src/*'') (log RmScratch ?sv2)"
    show ?thesis
    proof (cases "rm_res w")
      case (Some e)
      then have "r = Inl e" "l = l4\<lparr>srv := log RmScratch ?sv2\<rparr>"
        using run c Inr p by (auto simp: try_with_container_def Let_def)
      then show ?thesis using es1 cp1 by simp
    next
      case None
      have "containerPool ?s6 language = Some pool" using pool1 by simp
      note rel = releaseContainer_defined[OF this, of got]
      let ?s7 = "snd (releaseContainer language got ?s6)"
      obtain es3 where es3: "effects ?s7 = effects ?s6 @ es3"
        "acquisitions_of es3 = []" "releases_of es3 = [(language, got)]"
        "release_effect language got pool (containerPool ?s6) (containerPool ?s7) es3"
        using rel(2) by blast
      have res: "r = Inr \<lparr>json_success = Some True, json_wasm = Some wasmB,
                json_wasmExec = Some shim, json_cached = None, json_error = None\<rparr>"
        and l: "l = l4\<lparr>scratch := False, srv := ?s7\<rparr>"
        using run c Inr p None rel(1)
        by (auto simp: try_with_container_def Let_def split: option.splits prod.splits)
      let ?es = "es1 @ [RmScratch, DockerExec got ''rm -rf /src/*''] @ es3"
      have d: "destroyed_of ?es = destroyed_of es3" using es1(5) by simp
      have "release_effect language got pool (containerPool (srv l4)) (containerPool ?s7) es3"
        using es3(4) cp1 by simp
      then have re: "release_effect language got pool (containerPool (srv l4)) (containerPool ?s7) ?es"
        using release_effect_cong[OF d] by blast
      have "effects ?s7 = effects (srv l4) @ ?es" using es1(1) es3(1) by simp
      moreover have "acquisitions_of ?es = []" using es1(2) es3(2) by simp
      moreover have "releases_of ?es = [(language, got)]" using es1(3) es3(3) by simp
      moreover have "RmScratch \<in> set ?es" by simp
      ultimately show ?thesis
        unfolding res l using re by (intro exI[of _ ?es]) simp
    qed
  qed
qed


lemma try_with_container_pool_ok:
  assumes run: "try_with_container w language cacheKey config got l4 = (r, l)"
    and ok: "pool_ok (srv l4)"
  shows "pool_ok (srv l)"
proof -
  obtain rc sv1 where c: "compile_in_container w language config got (srv l4) = (rc, sv1)"
    by (cases "compile_in_container w language config got (srv l4)")
  have ok1: "pool_ok sv1"
    using compile_in_container_frame[OF c] ok pool_ok_cong[of sv1 "srv l4"] by simp
  show ?thesis
  proof (cases rc)
    case (Inl e)
    then show ?thesis using run c ok1 by (auto simp: try_with_container_def)
  next
    case (Inr p)
    obtain wasmB shim where p: "p = (wasmB, shim)" by (cases p)
    let ?sv2 = "sv1\<lparr>compilationCache :=
                   cache_insert (now_clean w) cacheKey
                     \<lparr>wasm = wasmB, wasmExec = Some shim, timestamp = now_set w\<rparr>
                     (compilationCache sv1)\<rparr>"
    let ?s6 = "log (DockerExec got ''rm -rf /src/*'') (log RmScratch ?sv2)"
    have ok5: "pool_ok (log RmScratch ?sv2)" using ok1 by (simp add: pool_ok_def)
    have ok6: "pool_ok ?s6" using ok1 by (simp add: pool_ok_def)
    have ok7: "pool_ok (snd (releaseContainer language got ?s6))"
      using ok6 by (rule releaseContainer_pool_ok)
    show ?thesis
      using run c Inr p ok5 ok7
      by (auto simp: try_with_container_def Let_def split: option.splits prod.splits)
  qed
qed

lemma try_with_container_result:
  assumes run: "try_with_container w language cacheKey config got l4 = (Inr b, l)"
  shows "\<exists>wasmB shim.
           b = \<lparr>json_success = Some True, json_wasm = Some wasmB, json_wasmExec = Some shim,
                json_cached = None, json_error = None\<rparr>
         \<and> read_wasm_res w = Inr wasmB
         \<and> (if language = ''go'' then read_shim_res w = Inr shim else shim = [])"
proof -
  obtain rc sv1 where c: "compile_in_container w language config got (srv l4) = (rc, sv1)"
    by (cases "compile_in_container w language config got (srv l4)")
  show ?thesis
  proof (cases rc)
    case (Inl e)
    then show ?thesis using run c by (auto simp: try_with_container_def)
  next
    case (Inr p)
    obtain wasmB shim where p: "p = (wasmB, shim)" by (cases p)
    note facts = compile_in_container_Inr[OF c[unfolded Inr p]]
    have "b = \<lparr>json_success = Some True, json_wasm = Some wasmB, json_wasmExec = Some shim,
                json_cached = None, json_error = None\<rparr>"
      using run c Inr p
      by (auto simp: try_with_container_def Let_def split: option.splits prod.splits)
    then show ?thesis using facts by auto
  qed
qed

lemma releaseContainer_cache:
  "compilationCache (snd (releaseContainer language got s)) = compilationCache s"
  by (simp add: releaseContainer_def Let_def split: pool_value.splits)

lemma try_with_container_cache:
  assumes run: "try_with_container w language cacheKey config got l4 = (r, l)"
  shows "compilationCache (srv l) = compilationCache (srv l4)
       \<or> (\<exists>wasmB shim. compilationCache (srv l)
             = cache_insert (now_clean w) cacheKey
                 \<lparr>wasm = wasmB, wasmExec = Some shim, timestamp = now_set w\<rparr>
                 (compilationCache (srv l4))
           \<and> (if language = ''go'' then read_shim_res w = Inr shim else shim = []))"
proof -
  obtain rc sv1 where c: "compile_in_container w language config got (srv l4) = (rc, sv1)"
    by (cases "compile_in_container w language config got (srv l4)")
  have f: "compilationCache sv1 = compilationCache (srv l4)"
    using compile_in_container_frame[OF c] by simp
  show ?thesis
  proof (cases rc)
    case (Inl e)
    then show ?thesis using run c f by (auto simp: try_with_container_def)
  next
    case (Inr p)
    obtain wasmB shim where p: "p = (wasmB, shim)" by (cases p)
    note facts = compile_in_container_Inr[OF c[unfolded Inr p]]
    let ?sv2 = "sv1\<lparr>compilationCache :=
                   cache_insert (now_clean w) cacheKey
                     \<lparr>wasm = wasmB, wasmExec = Some shim, timestamp = now_set w\<rparr>
                     (compilationCache sv1)\<rparr>"
    let ?s6 = "log (DockerExec got ''rm -rf /src/*'') (log RmScratch ?sv2)"
    have "compilationCache (srv l) = cache_insert (now_clean w) cacheKey
                 \<lparr>wasm = wasmB, wasmExec = Some shim, timestamp = now_set w\<rparr>
                 (compilationCache (srv l4))"
      using run c Inr p f releaseContainer_cache[of language got ?s6]
      by (auto simp: try_with_container_def Let_def split: option.splits prod.splits)
    then show ?thesis using facts(2,3) by (cases "language = ''go''") auto
  qed
qed


lemma try_block_props:
  assumes run: "try_block w language code cacheKey l0 = (r, l)"
    and fresh: "containerName l0 = []" "\<not> scratch l0"
    and ok: "pool_ok (srv l0)"
  shows "\<exists>es. effects (srv l) = effects (srv l0) @ es
           \<and> acquisitions_of es
               = (if containerName l = [] then [] else [(language, containerName l)])
           \<and> releases_of es
               = (case r of Inr b \<Rightarrow> [(language, containerName l)] | Inl e \<Rightarrow> [])
           \<and> (case r of
                 Inr b \<Rightarrow> RmScratch \<in> set es \<and> \<not> scratch l \<and> containerName l \<noteq> []
                   \<and> (\<exists>pool. containerPool (srv l0) language = Some pool
                        \<and> release_effect language (containerName l) (tl pool)
                             (containerPool (srv l0)) (containerPool (srv l)) es)
               | Inl e \<Rightarrow> scratch l = (mkdir_res w = None) \<and> destroyed_of es = []
                   \<and> (if containerName l = [] then containerPool (srv l) = containerPool (srv l0)
                       else (\<exists>pool. containerPool (srv l0) language = Some pool
                               \<and> containerPool (srv l)
                                   = (containerPool (srv l0))(language \<mapsto> tl pool))))"
    and "containerName l \<noteq> [] \<longrightarrow> containerPool (srv l) language \<noteq> None"
    and "admission_queue (srv l) = admission_queue (srv l0)"
    and "pool_ok (srv l)"
proof -
  let ?Q = "\<lambda>es. effects (srv l) = effects (srv l0) @ es
           \<and> acquisitions_of es
               = (if containerName l = [] then [] else [(language, containerName l)])
           \<and> releases_of es
               = (case r of Inr b \<Rightarrow> [(language, containerName l)] | Inl e \<Rightarrow> [])
           \<and> (case r of
                 Inr b \<Rightarrow> RmScratch \<in> set es \<and> \<not> scratch l \<and> containerName l \<noteq> []
                   \<and> (\<exists>pool. containerPool (srv l0) language = Some pool
                        \<and> release_effect language (containerName l) (tl pool)
                             (containerPool (srv l0)) (containerPool (srv l)) es)
               | Inl e \<Rightarrow> scratch l = (mkdir_res w = None) \<and> destroyed_of es = []
                   \<and> (if containerName l = [] then containerPool (srv l) = containerPool (srv l0)
                       else (\<exists>pool. containerPool (srv l0) language = Some pool
                               \<and> containerPool (srv l)
                                   = (containerPool (srv l0))(language \<mapsto> tl pool))))"
  let ?P = "(\<exists>es. ?Q es)
       \<and> (containerName l \<noteq> [] \<longrightarrow> containerPool (srv l) language \<noteq> None)
       \<and> admission_queue (srv l) = admission_queue (srv l0)
       \<and> pool_ok (srv l)"
  have early: ?P
    if r: "r = Inl e" and l: "containerName l = []" "scratch l = (mkdir_res w = None)" "srv l = sv"
      and sv: "effects sv = effects (srv l0) @ es" "acquisitions_of es = []"
        "releases_of es = []" "destroyed_of es = []" "containerPool sv = containerPool (srv l0)"
        "admission_queue sv = admission_queue (srv l0)"
    for sv e es
  proof -
    have "?Q es" unfolding r using sv l by simp
    moreover have "pool_ok (srv l)" using l(3) sv(5) ok pool_ok_cong[of sv "srv l0"] by simp
    ultimately show ?thesis using l sv(6) by auto
  qed
  have ?P
  proof (cases "mkdir_res w")
    case (Some e)
    then have "r = Inl e" "containerName l = []" "scratch l = (mkdir_res w = None)"
      "srv l = log Mkdir (srv l0)"
      using run fresh by (auto simp: try_block_def Let_def)
    then show ?thesis by (rule early[where es = "[Mkdir]"]) simp_all
  next
    case None
    note mk = None
    show ?thesis
    proof (cases "config_of (LANGUAGES language)")
      case (Inl e)
      then have "r = Inl e" "containerName l = []" "scratch l = (mkdir_res w = None)"
        "srv l = log Mkdir (srv l0)"
        using run fresh mk by (auto simp: try_block_def Let_def)
      then show ?thesis by (rule early[where es = "[Mkdir]"]) simp_all
    next
      case (Inr config)
      note cf = Inr
      have own: "language \<notin> set object_prototype_keys"
        using cf LANGUAGES_Own_not_inherited[of language config]
        by (auto simp: config_of_def split: registry_value.splits)
      let ?s3 = "log (WriteFile (filename config) code) (log Mkdir (srv l0))"
      show ?thesis
      proof (cases "writeFile_res w")
        case (Some e)
        then have "r = Inl e" "containerName l = []" "scratch l = (mkdir_res w = None)"
          "srv l = ?s3"
          using run fresh mk cf by (auto simp: try_block_def Let_def)
        then show ?thesis
          by (rule early[where es = "[Mkdir, WriteFile (filename config) code]"]) simp_all
      next
        case None
        note wf = None
        have ok3: "pool_ok ?s3" using ok by (simp add: pool_ok_def)
        obtain rg sv where g: "getContainer w language ?s3 = (rg, sv)"
          by (cases "getContainer w language ?s3")
        show ?thesis
        proof (cases rg)
          case (Inl e)
          have lr: "r = Inl e" "containerName l = []" "scratch l = (mkdir_res w = None)"
            "srv l = sv"
            using run fresh mk cf wf g Inl by (auto simp: try_block_def Let_def)
          note gi = getContainer_Inl[OF g[unfolded Inl]]
          then obtain es1 where es1: "effects sv = effects ?s3 @ es1" "acquisitions_of es1 = []"
            "releases_of es1 = []" "destroyed_of es1 = []" by blast
          show ?thesis
            using lr
          proof (rule early[where es = "[Mkdir, WriteFile (filename config) code] @ es1"])
            show "effects sv = effects (srv l0) @ [Mkdir, WriteFile (filename config) code] @ es1"
              using es1(1) by simp
          qed (use es1 gi in simp_all)
        next
          case (Inr got)
          let ?l4 = "l0\<lparr>scratch := True, srv := sv, containerName := got\<rparr>"
          have t: "try_with_container w language cacheKey config got ?l4 = (r, l)"
            using run mk cf wf g Inr by (auto simp: try_block_def Let_def)
          note gc = getContainer_Inr[OF g[unfolded Inr] own]
          have got: "got \<noteq> []" and ok4: "pool_ok (srv ?l4)" using gc(5)[OF ok3] by simp_all
          obtain pool where pool0: "containerPool (srv l0) language = Some pool"
            and cp4: "containerPool sv = (containerPool (srv l0))(language \<mapsto> tl pool)"
            using gc(2) by auto
          have pool4: "containerPool (srv ?l4) language = Some (tl pool)" using cp4 by simp
          note tw = try_with_container_props[OF t pool4]
          have cn: "containerName l = got" using tw(1) by simp
          obtain es1 where es1: "effects sv = effects ?s3 @ es1"
            "acquisitions_of es1 = [(language, got)]" "releases_of es1 = []"
            "destroyed_of es1 = []"
            using gc(1) by blast
          obtain es2 where es2: "effects (srv l) = effects sv @ es2" "acquisitions_of es2 = []"
            "releases_of es2 = (case r of Inr b \<Rightarrow> [(language, got)] | Inl e \<Rightarrow> [])"
            "(case r of
                 Inr b \<Rightarrow> RmScratch \<in> set es2 \<and> \<not> scratch l
                   \<and> release_effect language got (tl pool) (containerPool (srv ?l4))
                        (containerPool (srv l)) es2
               | Inl e \<Rightarrow> scratch l = scratch ?l4 \<and> containerPool (srv l) = containerPool (srv ?l4)
                   \<and> destroyed_of es2 = [])"
            using tw(2) by auto
          let ?es = "[Mkdir, WriteFile (filename config) code] @ es1 @ es2"
          have d: "destroyed_of ?es = destroyed_of es2" using es1(4) by simp
          have "effects (srv l) = effects (srv l0) @ ?es"
            using es1(1) es2(1) by simp
          moreover have "acquisitions_of ?es
               = (if containerName l = [] then [] else [(language, containerName l)])"
            using es1 es2 cn got by simp
          moreover have "releases_of ?es
               = (case r of Inr b \<Rightarrow> [(language, containerName l)] | Inl e \<Rightarrow> [])"
            using es1 es2 cn by (simp split: sum.splits)
          moreover have "(case r of
                 Inr b \<Rightarrow> RmScratch \<in> set ?es \<and> \<not> scratch l \<and> containerName l \<noteq> []
                   \<and> (\<exists>pool. containerPool (srv l0) language = Some pool
                        \<and> release_effect language (containerName l) (tl pool)
                             (containerPool (srv l0)) (containerPool (srv l)) ?es)
               | Inl e \<Rightarrow> scratch l = (mkdir_res w = None) \<and> destroyed_of ?es = []
                   \<and> (if containerName l = [] then containerPool (srv l) = containerPool (srv l0)
                       else (\<exists>pool. containerPool (srv l0) language = Some pool
                               \<and> containerPool (srv l)
                                   = (containerPool (srv l0))(language \<mapsto> tl pool))))"
          proof (cases r)
            case (Inl e)
            then show ?thesis using es2(4) d mk cn got pool0 cp4 by simp
          next
            case (Inr b)
            then have "release_effect language got (tl pool)
                ((containerPool (srv l0))(language \<mapsto> tl pool)) (containerPool (srv l)) es2"
              using es2(4) cp4 by simp
            then have "release_effect language got (tl pool)
                (containerPool (srv l0)) (containerPool (srv l)) es2"
              unfolding release_effect_upd .
            then have "release_effect language got (tl pool)
                (containerPool (srv l0)) (containerPool (srv l)) ?es"
              using release_effect_cong[OF d] by blast
            then show ?thesis using Inr es2(4) cn got pool0 by simp
          qed
          moreover have "containerPool (srv l) language \<noteq> None" using tw(3) .
          moreover have "admission_queue (srv l) = admission_queue (srv l0)"
            using tw(4) gc(4) by simp
          moreover have "pool_ok (srv l)" using try_with_container_pool_ok[OF t ok4] .
          ultimately show ?thesis by blast
        qed
      qed
    qed
  qed
  then show "\<exists>es. ?Q es"
    and "containerName l \<noteq> [] \<longrightarrow> containerPool (srv l) language \<noteq> None"
    and "admission_queue (srv l) = admission_queue (srv l0)"
    and "pool_ok (srv l)"
    by blast+
qed


lemma or_else_nonempty: "d \<noteq> [] \<Longrightarrow> or_else a d \<noteq> []"
  by (simp add: or_else_def split: option.splits)

lemma catch_block_message_nonempty: "message (fst (catch_block w language err l)) \<noteq> []"
  by (auto simp: catch_block_def Let_def or_else_nonempty releaseContainer_def
      undefined_length_error_def push_not_a_function_error_def
      split: prod.splits option.splits if_splits pool_value.splits)

lemma catch_block_props:
  assumes pool: "containerName l \<noteq> [] \<longrightarrow> containerPool (srv l) language \<noteq> None"
    and run: "catch_block w language err l = (e, l')"
  shows "message e = or_else (Some (classify language (raw_text err))) ''Compilation failed''"
    and "\<exists>es. effects (srv l') = effects (srv l) @ es \<and> acquisitions_of es = []
           \<and> releases_of es = (if containerName l = [] then [] else [(language, containerName l)])
           \<and> RmScratch \<in> set es
           \<and> (if containerName l = []
               then containerPool (srv l') = containerPool (srv l) \<and> destroyed_of es = []
               else (\<exists>pool. containerPool (srv l) language = Some pool
                       \<and> release_effect language (containerName l) pool (containerPool (srv l))
                            (containerPool (srv l')) es))"
    and "scratch l' = (scratch l \<and> \<not> rm_catch_ok w)"
    and "containerName l' = containerName l"
    and "admission_queue (srv l') = admission_queue (srv l)"
    and "compilationCache (srv l') = compilationCache (srv l)"
    and "pool_ok (srv l) \<Longrightarrow> pool_ok (srv l')"
proof -
  let ?Q = "\<lambda>es. effects (srv l') = effects (srv l) @ es \<and> acquisitions_of es = []
           \<and> releases_of es = (if containerName l = [] then [] else [(language, containerName l)])
           \<and> RmScratch \<in> set es
           \<and> (if containerName l = []
               then containerPool (srv l') = containerPool (srv l) \<and> destroyed_of es = []
               else (\<exists>pool. containerPool (srv l) language = Some pool
                       \<and> release_effect language (containerName l) pool (containerPool (srv l))
                            (containerPool (srv l')) es))"
  let ?P = "message e = or_else (Some (classify language (raw_text err))) ''Compilation failed''
    \<and> (\<exists>es. ?Q es)
    \<and> scratch l' = (scratch l \<and> \<not> rm_catch_ok w)
    \<and> containerName l' = containerName l
    \<and> admission_queue (srv l') = admission_queue (srv l)
    \<and> compilationCache (srv l') = compilationCache (srv l)
    \<and> (pool_ok (srv l) \<longrightarrow> pool_ok (srv l'))"
  have ?P
  proof (cases "containerName l = []")
    case True
    then have "e = \<lparr>stderr = None,
        message = or_else (Some (classify language (raw_text err))) ''Compilation failed''\<rparr>"
      and l': "l' = l\<lparr>srv := log RmScratch (srv l), scratch := (scratch l \<and> \<not> rm_catch_ok w)\<rparr>"
      using run by (auto simp: catch_block_def Let_def)
    moreover have "?Q [RmScratch]" unfolding l' using True by simp
    ultimately show ?thesis by (auto simp: pool_ok_def)
  next
    case False
    then obtain pool' where p: "containerPool (srv l) language = Some pool'" using pool by auto
    note rel = releaseContainer_defined[OF p, of "containerName l"]
    let ?s1 = "snd (releaseContainer language (containerName l) (srv l))"
    obtain es where es: "effects ?s1 = effects (srv l) @ es" "acquisitions_of es = []"
        "releases_of es = [(language, containerName l)]"
        "release_effect language (containerName l) pool' (containerPool (srv l))
           (containerPool ?s1) es"
      using rel(2) by blast
    have e: "e = \<lparr>stderr = None,
        message = or_else (Some (classify language (raw_text err))) ''Compilation failed''\<rparr>"
      and l': "l' = l\<lparr>srv := log RmScratch ?s1, scratch := (scratch l \<and> \<not> rm_catch_ok w)\<rparr>"
      using run False rel(1)
      by (auto simp: catch_block_def Let_def split: prod.splits option.splits)
    have ok': "pool_ok (srv l')" if "pool_ok (srv l)"
      using releaseContainer_pool_ok[OF that, of language "containerName l"]
      unfolding l' by (simp add: pool_ok_def)
    have d: "destroyed_of (es @ [RmScratch]) = destroyed_of es" by simp
    have "release_effect language (containerName l) pool' (containerPool (srv l))
           (containerPool ?s1) (es @ [RmScratch])"
      using es(4) release_effect_cong[OF d] by blast
    then have "?Q (es @ [RmScratch])"
      unfolding l' using es(1,2,3) False p by simp
    then have "\<exists>es. ?Q es" ..
    then show ?thesis
      using ok' rel(4,5) unfolding e l' by simp
  qed
  then show "message e = or_else (Some (classify language (raw_text err))) ''Compilation failed''"
    and "\<exists>es. ?Q es"
    and "scratch l' = (scratch l \<and> \<not> rm_catch_ok w)"
    and "containerName l' = containerName l"
    and "admission_queue (srv l') = admission_queue (srv l)"
    and "compilationCache (srv l') = compilationCache (srv l)"
    and "pool_ok (srv l) \<Longrightarrow> pool_ok (srv l')"
    by blast+
qed

lemma new_effects_append: "effects s' = effects s @ es \<Longrightarrow> new_effects s s' = es"
  by (simp add: new_effects_def)

text \<open>
  Claim C5, amended (the removal of the scratch directory is requested and the container
  released exactly once, on both paths; the directory can stay behind on the failure
  path).  For every run of the compile job, from a server whose free lists hold pool
  containers only:

  \<^item> the releases of the run are its acquisitions, that is, the container that
    \<open>getContainer\<close> returned, if it returned one, is given to \<open>releaseContainer\<close> once, and
    nothing else is;

  \<^item> the release gives the container back or destroys it: if the run has no container,
    the free lists are the ones before the run and nothing is destroyed; otherwise the
    first container has left the free list \<open>pool\<close> of the language, if there was one, and
    either the container of the run is at the end of that list and nothing is destroyed
    (when the list has room and the name has \<open>pool\<close> in it), or the list stays so and
    the container of the run is the one container destroyed;

  \<^item> the removal of the scratch directory is requested;

  \<^item> the directory is gone when the job succeeds; when the job fails, the directory is
    left behind if and only if it had been made and the removal in the \<open>catch\<close> block
    fails, a failure that the server ignores.
\<close>

theorem C5_release_exactly_once:
  assumes ok: "pool_ok s"
    and run: "compile_job w language code cacheKey s = (r, l)"
  shows "releases_of (new_effects s (srv l)) = acquisitions_of (new_effects s (srv l))
     \<and> acquisitions_of (new_effects s (srv l))
          = (if containerName l = [] then [] else [(language, containerName l)])
     \<and> (if containerName l = []
         then containerPool (srv l) = containerPool s
              \<and> destroyed_of (new_effects s (srv l)) = []
         else (\<exists>pool. containerPool s language = Some pool
                 \<and> (if length (tl pool) < poolSize_or_2 language
                        \<and> js_includes (containerName l) ''pool''
                     then containerPool (srv l)
                            = (containerPool s)(language \<mapsto> tl pool @ [containerName l])
                          \<and> destroyed_of (new_effects s (srv l)) = []
                     else containerPool (srv l) = (containerPool s)(language \<mapsto> tl pool)
                          \<and> destroyed_of (new_effects s (srv l)) = [containerName l])))
     \<and> RmScratch \<in> set (new_effects s (srv l))
     \<and> scratch l
          = (case r of Inr result \<Rightarrow> False | Inl err \<Rightarrow> mkdir_res w = None \<and> \<not> rm_catch_ok w)
     \<and> pool_ok (srv l)"
proof -
  let ?l0 = "\<lparr>srv = s, containerName = [], scratch = False\<rparr>"
  obtain rt lt where t: "try_block w language code cacheKey ?l0 = (rt, lt)"
    by (cases "try_block w language code cacheKey ?l0")
  have ok0: "pool_ok (srv ?l0)" using ok by simp
  have f1: "containerName ?l0 = []" and f2: "\<not> scratch ?l0" by simp_all
  have srv0: "srv ?l0 = s" by simp
  note tb = try_block_props[OF t f1 f2 ok0]
  obtain es1 where es1: "effects (srv lt) = effects s @ es1"
    "acquisitions_of es1 = (if containerName lt = [] then [] else [(language, containerName lt)])"
    "releases_of es1 = (case rt of Inr b \<Rightarrow> [(language, containerName lt)] | Inl e \<Rightarrow> [])"
    "(case rt of
        Inr b \<Rightarrow> RmScratch \<in> set es1 \<and> \<not> scratch lt \<and> containerName lt \<noteq> []
          \<and> (\<exists>pool. containerPool s language = Some pool
               \<and> release_effect language (containerName lt) (tl pool)
                    (containerPool s) (containerPool (srv lt)) es1)
      | Inl e \<Rightarrow> scratch lt = (mkdir_res w = None) \<and> destroyed_of es1 = []
          \<and> (if containerName lt = [] then containerPool (srv lt) = containerPool s
              else (\<exists>pool. containerPool s language = Some pool
                      \<and> containerPool (srv lt) = (containerPool s)(language \<mapsto> tl pool))))"
    using tb(1)[unfolded srv0] by blast
  show ?thesis
  proof (cases rt)
    case (Inr b)
    then have rl: "r = Inr b" "l = lt" using run t by (auto simp: compile_job_def)
    note ne = new_effects_append[OF es1(1)]
    obtain pool where "containerPool s language = Some pool"
      "release_effect language (containerName lt) (tl pool)
         (containerPool s) (containerPool (srv lt)) es1"
      using es1(4) Inr by auto
    then have "\<exists>pool. containerPool s language = Some pool
        \<and> (if length (tl pool) < poolSize_or_2 language \<and> js_includes (containerName lt) ''pool''
            then containerPool (srv lt)
                   = (containerPool s)(language \<mapsto> tl pool @ [containerName lt])
                 \<and> destroyed_of es1 = []
            else containerPool (srv lt) = (containerPool s)(language \<mapsto> tl pool)
                 \<and> destroyed_of es1 = [containerName lt])"
      unfolding release_effect_def by blast
    then show ?thesis
      unfolding rl ne using es1 Inr tb(4) by simp
  next
    case (Inl err)
    obtain e l' where c: "catch_block w language err lt = (e, l')"
      by (cases "catch_block w language err lt")
    have r: "r = Inl e" and l: "l = l'" using run t Inl c by (auto simp: compile_job_def)
    note cb = catch_block_props[OF tb(2) c]
    obtain es2 where es2: "effects (srv l') = effects (srv lt) @ es2" "acquisitions_of es2 = []"
      "releases_of es2 = (if containerName lt = [] then [] else [(language, containerName lt)])"
      "RmScratch \<in> set es2"
      "(if containerName lt = []
        then containerPool (srv l') = containerPool (srv lt) \<and> destroyed_of es2 = []
        else (\<exists>pool. containerPool (srv lt) language = Some pool
                \<and> release_effect language (containerName lt) pool (containerPool (srv lt))
                     (containerPool (srv l')) es2))"
      using cb(2) by auto
    have t1: "scratch lt = (mkdir_res w = None)" "destroyed_of es1 = []"
      "(if containerName lt = [] then containerPool (srv lt) = containerPool s
        else (\<exists>pool. containerPool s language = Some pool
                \<and> containerPool (srv lt) = (containerPool s)(language \<mapsto> tl pool)))"
      using es1(4) Inl by simp_all
    have "effects (srv l') = effects s @ (es1 @ es2)" using es1(1) es2(1) by simp
    note ne = new_effects_append[OF this]
    have d: "destroyed_of (es1 @ es2) = destroyed_of es2" using t1(2) by simp
    have pools: "(if containerName l' = []
         then containerPool (srv l') = containerPool s \<and> destroyed_of (es1 @ es2) = []
         else (\<exists>pool. containerPool s language = Some pool
                 \<and> (if length (tl pool) < poolSize_or_2 language
                        \<and> js_includes (containerName l') ''pool''
                     then containerPool (srv l')
                            = (containerPool s)(language \<mapsto> tl pool @ [containerName l'])
                          \<and> destroyed_of (es1 @ es2) = []
                     else containerPool (srv l') = (containerPool s)(language \<mapsto> tl pool)
                          \<and> destroyed_of (es1 @ es2) = [containerName l'])))"
    proof (cases "containerName lt = []")
      case True
      then show ?thesis using t1(3) es2(5) d cb(4) by simp
    next
      case False
      obtain pool where p: "containerPool s language = Some pool"
        "containerPool (srv lt) = (containerPool s)(language \<mapsto> tl pool)"
        using t1(3) False by auto
      obtain pool' where p': "containerPool (srv lt) language = Some pool'"
        "release_effect language (containerName lt) pool' (containerPool (srv lt))
           (containerPool (srv l')) es2"
        using es2(5) False by auto
      have "pool' = tl pool" using p(2) p'(1) by simp
      then have "release_effect language (containerName lt) (tl pool)
           ((containerPool s)(language \<mapsto> tl pool)) (containerPool (srv l')) es2"
        using p'(2) p(2) by simp
      then have "release_effect language (containerName lt) (tl pool)
           (containerPool s) (containerPool (srv l')) es2"
        unfolding release_effect_upd .
      then have "release_effect language (containerName lt) (tl pool)
           (containerPool s) (containerPool (srv l')) (es1 @ es2)"
        using release_effect_cong[OF d] by blast
      then have "\<exists>pool. containerPool s language = Some pool
        \<and> (if length (tl pool) < poolSize_or_2 language \<and> js_includes (containerName lt) ''pool''
            then containerPool (srv l')
                   = (containerPool s)(language \<mapsto> tl pool @ [containerName lt])
                 \<and> destroyed_of (es1 @ es2) = []
            else containerPool (srv l') = (containerPool s)(language \<mapsto> tl pool)
                 \<and> destroyed_of (es1 @ es2) = [containerName lt])"
        unfolding release_effect_def using p(1) by blast
      then show ?thesis unfolding cb(4) by (simp only: False if_False)
    qed
    have "releases_of (es1 @ es2) = acquisitions_of (es1 @ es2)"
      using es1(2,3) es2(2,3) Inl by simp
    moreover have "acquisitions_of (es1 @ es2)
        = (if containerName l' = [] then [] else [(language, containerName l')])"
      using es1(2) es2(2) cb(4) by simp
    moreover have "RmScratch \<in> set (es1 @ es2)" using es2(4) by simp
    moreover have "scratch l' = (mkdir_res w = None \<and> \<not> rm_catch_ok w)"
      using cb(3) t1(1) by simp
    moreover have "pool_ok (srv l')" using cb(7)[OF tb(4)] .
    ultimately show ?thesis
      unfolding r l ne using pools by simp
  qed
qed

section \<open>Names of containers\<close>

lemma string_of_nat_no_p: "CHR ''p'' \<notin> set (string_of_nat n)"
proof (induction n rule: string_of_nat.induct)
  case (1 n)
  have d: "char_of (48 + k) \<noteq> CHR ''p''" if "k < 10" for k :: nat
  proof
    assume "char_of (48 + k) = CHR ''p''"
    then have "of_char (char_of (48 + k)) = (of_char (CHR ''p'') :: nat)" by simp
    then show False using that by (simp add: of_char_of)
  qed
  show ?case
  proof (cases "n < 10")
    case True
    then show ?thesis using d[of n] by (subst string_of_nat.simps) auto
  next
    case False
    then show ?thesis using 1 d[of "n mod 10"] by (subst string_of_nat.simps) auto
  qed
qed

lemma find_from_no_p: "CHR ''p'' \<notin> set s \<Longrightarrow> find_from ''pool'' s = None"
  by (induction s) (auto simp: startsWith_def)

lemma temp_name_not_pool:
  assumes "language \<in> {''cpp'', ''rust'', ''go''}"
  shows "\<not> js_includes (''wasm-temp-'' @ language @ ''-'' @ string_of_nat t) ''pool''"
  using assms find_from_no_p[OF string_of_nat_no_p[of t]]
  by (auto simp: js_includes_def startsWith_def)

lemma warm_name_pool: "js_includes (''wasm-pool-'' @ rest) ''pool''"
  by (simp add: js_includes_def startsWith_def)

lemma LANGUAGES_Own:
  assumes "LANGUAGES language = Own config"
  shows "language \<in> {''cpp'', ''rust'', ''go''}" and "poolSize_or_2 language = poolSize config"
    and "0 < poolSize config"
  using assms
  by (auto simp: LANGUAGES_def LANGUAGES_own_def poolSize_or_2_def split: if_splits option.splits)

section \<open>Look-up in the cache and cache keys\<close>

lemma cache_get_delete:
  "cache_get (cache_delete k c) k' = (if k' = k then None else cache_get c k')"
  by (induction c) auto

lemma cache_get_set:
  "cache_get (cache_set k v c) k' = (if k' = k then Some v else cache_get c k')"
  by (induction c) auto

lemma cache_get_delete_Some:
  "cache_get (cache_delete k c) k' = Some e \<Longrightarrow> cache_get c k' = Some e"
  by (simp add: cache_get_delete split: if_splits)

lemma cache_get_purge:
  "cache_get (purge_expired now es c) k = Some e \<Longrightarrow> cache_get c k = Some e"
  unfolding purge_expired_def
proof (induction es arbitrary: c)
  case Nil
  then show ?case by simp
next
  case (Cons p es)
  obtain key val where p: "p = (key, val)" by (cases p)
  show ?case
  proof (cases "now - timestamp val > CACHE_TTL")
    case True
    then have "cache_get (cache_delete key c) k = Some e"
      using Cons.prems p Cons.IH[of "cache_delete key c"] by simp
    then show ?thesis by (rule cache_get_delete_Some)
  next
    case False
    then show ?thesis using Cons.prems p Cons.IH[of c] by simp
  qed
qed

lemma cache_get_fold_delete:
  "cache_get (fold (\<lambda>(key, val) m. cache_delete key m) es c) k = Some e
   \<Longrightarrow> cache_get c k = Some e"
proof (induction es arbitrary: c)
  case Nil
  then show ?case by simp
next
  case (Cons p es)
  obtain key val where p: "p = (key, val)" by (cases p)
  have "cache_get (cache_delete key c) k = Some e"
    using Cons.prems p Cons.IH[of "cache_delete key c"] by simp
  then show ?case by (rule cache_get_delete_Some)
qed

lemma cache_get_cleanCache:
  "cache_get (cleanCache now c) k = Some e \<Longrightarrow> cache_get c k = Some e"
  by (auto simp: cleanCache_def Let_def dest: cache_get_fold_delete cache_get_purge split: if_splits)

lemma cache_get_insert:
  "cache_get (cache_insert now k v c) k' = Some e
   \<Longrightarrow> (k' = k \<and> e = v) \<or> (k' \<noteq> k \<and> cache_get c k' = Some e)"
  by (auto simp: cache_insert_def cache_get_set dest: cache_get_cleanCache split: if_splits)

lemma colon_split_unique:
  "CHR '':'' \<notin> set a \<Longrightarrow> CHR '':'' \<notin> set a' \<Longrightarrow> a @ CHR '':'' # b = a' @ CHR '':'' # b'
   \<Longrightarrow> a = a'"
proof (induction a arbitrary: a')
  case Nil
  then show ?case by (cases a') auto
next
  case (Cons x a)
  then show ?case by (cases a') auto
qed

lemma getCacheKey_inj:
  assumes "inj H" "CHR '':'' \<notin> set language" "CHR '':'' \<notin> set language'"
    "getCacheKey H language code = getCacheKey H language' code'"
  shows "language = language'"
proof -
  have "language @ '':'' @ code = language' @ '':'' @ code'"
    using injD[OF assms(1), of "language @ '':'' @ code" "language' @ '':'' @ code'"] assms(4)
    unfolding getCacheKey_def by blast
  then show ?thesis using colon_split_unique[OF assms(2,3)] by simp
qed


lemma LANGUAGES_defined:
  "LANGUAGES language \<noteq> Undefined
   \<Longrightarrow> language \<in> set (map fst LANGUAGES_own) \<or> language \<in> set object_prototype_keys"
  by (auto simp: LANGUAGES_def split: option.splits if_splits dest: map_of_SomeD intro: rev_image_eqI)

lemma LANGUAGES_no_colon: "LANGUAGES language \<noteq> Undefined \<Longrightarrow> CHR '':'' \<notin> set language"
proof -
  assume "LANGUAGES language \<noteq> Undefined"
  then have "language \<in> set (map fst LANGUAGES_own) \<or> language \<in> set object_prototype_keys"
    by (rule LANGUAGES_defined)
  moreover have "\<forall>l \<in> set (map fst LANGUAGES_own). CHR '':'' \<notin> set l"
    by (simp add: LANGUAGES_own_def)
  moreover have "\<forall>l \<in> set object_prototype_keys. CHR '':'' \<notin> set l"
    by (simp add: object_prototype_keys_def)
  ultimately show ?thesis by blast
qed

section \<open>Result of the compile job\<close>

lemma config_of_Inr: "config_of v = Inr config \<Longrightarrow> v = Own config"
  by (cases v) (auto simp: config_of_def)

lemma try_block_result:
  assumes run: "try_block w language code cacheKey l0 = (Inr b, l)"
  shows "\<exists>wasmB shim.
           b = \<lparr>json_success = Some True, json_wasm = Some wasmB, json_wasmExec = Some shim,
                json_cached = None, json_error = None\<rparr>
         \<and> read_wasm_res w = Inr wasmB
         \<and> (if language = ''go'' then read_shim_res w = Inr shim else shim = [])"
proof -
  from run obtain config got l4
    where "try_with_container w language cacheKey config got l4 = (Inr b, l)"
    by (auto simp: try_block_def Let_def split: option.splits sum.splits prod.splits)
  then show ?thesis by (rule try_with_container_result)
qed

lemma try_block_cache:
  assumes run: "try_block w language code cacheKey l0 = (r, l)"
  shows "stored w language cacheKey (compilationCache (srv l0)) (compilationCache (srv l))"
proof -
  consider (early) "compilationCache (srv l) = compilationCache (srv l0)"
    | (late) config got sv where "LANGUAGES language = Own config"
        "compilationCache sv = compilationCache (srv l0)"
        "try_with_container w language cacheKey config got
           (l0\<lparr>scratch := True, srv := sv, containerName := got\<rparr>) = (r, l)"
    using run
    by (auto simp: try_block_def Let_def split: option.splits sum.splits prod.splits
        dest!: config_of_Inr getContainer_Inl dest: getContainer_cache)
  then show ?thesis
  proof cases
    case early
    then show ?thesis by (simp add: stored_def)
  next
    case late
    show ?thesis
      using try_with_container_cache[OF late(3)] late(1,2)
      by (auto simp: stored_def)
  qed
qed

lemma compile_job_result:
  assumes "compile_job w language code cacheKey s = (Inr b, l)"
  shows "\<exists>wasmB shim.
           b = \<lparr>json_success = Some True, json_wasm = Some wasmB, json_wasmExec = Some shim,
                json_cached = None, json_error = None\<rparr>
         \<and> read_wasm_res w = Inr wasmB
         \<and> (if language = ''go'' then read_shim_res w = Inr shim else shim = [])"
proof -
  from assms have "\<exists>l0. try_block w language code cacheKey l0 = (Inr b, l)"
    by (auto simp: compile_job_def split: prod.splits sum.splits)
  then show ?thesis using try_block_result by blast
qed

lemma compile_job_failure:
  assumes "compile_job w language code cacheKey s = (Inl e, l)"
  shows "message e \<noteq> []"
proof -
  from assms have "\<exists>err lt. e = fst (catch_block w language err lt)"
    by (auto simp: compile_job_def split: prod.splits sum.splits) (metis fst_conv)
  then show ?thesis using catch_block_message_nonempty by blast
qed

lemma catch_block_cache:
  "compilationCache (srv (snd (catch_block w language err l))) = compilationCache (srv l)"
  by (auto simp: catch_block_def Let_def releaseContainer_cache split: prod.splits option.splits)
     (metis releaseContainer_cache snd_conv)+

lemma compile_job_cache:
  assumes run: "compile_job w language code cacheKey s = (r, l)"
  shows "stored w language cacheKey (compilationCache s) (compilationCache (srv l))"
proof -
  let ?l0 = "\<lparr>srv = s, containerName = [], scratch = False\<rparr>"
  obtain rt lt where t: "try_block w language code cacheKey ?l0 = (rt, lt)"
    by (cases "try_block w language code cacheKey ?l0")
  have st: "stored w language cacheKey (compilationCache s) (compilationCache (srv lt))"
    using try_block_cache[OF t] by simp
  show ?thesis
  proof (cases rt)
    case (Inr b)
    then show ?thesis using run t st by (auto simp: compile_job_def)
  next
    case (Inl err)
    then have "l = snd (catch_block w language err lt)"
      using run t by (auto simp: compile_job_def split: prod.splits)
    then show ?thesis using st catch_block_cache[of w language err lt] by simp
  qed
qed

section \<open>The five outcomes of a request\<close>

lemma complete_job_fst:
  "fst (complete_job w language code cacheKey s)
     = (case fst (compile_job w language code cacheKey s) of
          Inr result \<Rightarrow> Response 200 result
        | Inl err \<Rightarrow> Response 500 (error_body (message err)))"
  by (simp add: complete_job_def Let_def split: prod.splits)

lemma complete_job_cache:
  "compilationCache (snd (complete_job w language code cacheKey s))
     = compilationCache (srv (snd (compile_job w language code cacheKey s)))"
  by (simp add: complete_job_def Let_def split: prod.splits)

lemma complete_job_success:
  assumes "fst (complete_job w language code cacheKey s) = Response 200 b"
  shows "\<exists>wasmB shim.
           b = \<lparr>json_success = Some True, json_wasm = Some wasmB, json_wasmExec = Some shim,
                json_cached = None, json_error = None\<rparr>
         \<and> read_wasm_res w = Inr wasmB
         \<and> (if language = ''go'' then read_shim_res w = Inr shim else shim = [])"
proof -
  obtain r l where c: "compile_job w language code cacheKey s = (r, l)"
    by (cases "compile_job w language code cacheKey s")
  then have "r = Inr b" using assms by (auto simp: complete_job_fst split: sum.splits)
  then show ?thesis using compile_job_result c by blast
qed

lemma complete_job_failure:
  assumes "fst (complete_job w language code cacheKey s) = Response st b" "st \<noteq> 200"
  shows "st = 500 \<and> (\<exists>msg. b = error_body msg \<and> msg \<noteq> [])"
proof -
  obtain r l where c: "compile_job w language code cacheKey s = (r, l)"
    by (cases "compile_job w language code cacheKey s")
  then obtain e where "r = Inl e" "st = 500" "b = error_body (message e)"
    using assms by (auto simp: complete_job_fst split: sum.splits)
  then show ?thesis using compile_job_failure c by blast
qed

lemma handle_cases:
  obtains
    (missing) "handle H w req s = (Response 400 (error_body ''Missing language or code''),
                                  if poolReady s then s else initPool w s)"
  | (unsupported) "handle H w req s = (Response 400 (error_body ''Unsupported language''),
                                  if poolReady s then s else initPool w s)"
  | (hit) language code cached where
      "body_language req = Some language" "body_code req = Some code"
      "LANGUAGES language \<noteq> Undefined"
      "cache_get (compilationCache s) (getCacheKey H language code) = Some cached"
      "handle H w req s
         = (Response 200 \<lparr>json_success = Some True, json_wasm = Some (wasm cached),
                           json_wasmExec = wasmExec cached, json_cached = Some True,
                           json_error = None\<rparr>,
            if poolReady s then s else initPool w s)"
  | (queued) language code s2 where
      "body_language req = Some language" "body_code req = Some code"
      "cache_get (compilationCache s) (getCacheKey H language code) = None"
      "compilationCache s2 = compilationCache s"
      "handle H w req s = (Pending, s2)"
      "s2 = (if poolReady s then s else initPool w s)
              \<lparr>admission_queue := executeWithQueue (job_id w)
                 (admission_queue (if poolReady s then s else initPool w s))\<rparr>"
      "\<not> activeCompilations (admission_queue s) < MAX_CONCURRENT_COMPILATIONS"
  | (admitted) language code s2 where
      "body_language req = Some language" "body_code req = Some code"
      "LANGUAGES language \<noteq> Undefined"
      "cache_get (compilationCache s) (getCacheKey H language code) = None"
      "compilationCache s2 = compilationCache s"
      "handle H w req s = complete_job w language code (getCacheKey H language code) s2"
      "s2 = (if poolReady s then s else initPool w s)
              \<lparr>admission_queue := executeWithQueue (job_id w)
                 (admission_queue (if poolReady s then s else initPool w s))\<rparr>"
      "activeCompilations (admission_queue s) < MAX_CONCURRENT_COMPILATIONS"
proof (cases "body_language req = None \<or> body_language req = Some []
           \<or> body_code req = None \<or> body_code req = Some []")
  case True
  then show ?thesis using missing handle_missing by blast
next
  case False
  then obtain language code where lc: "body_language req = Some language"
    "body_code req = Some code" "language \<noteq> []" "code \<noteq> []" by auto
  show ?thesis
  proof (cases "LANGUAGES language = Undefined")
    case True
    then show ?thesis using unsupported handle_unsupported[OF lc] by blast
  next
    case False
    note sup = False
    show ?thesis
    proof (cases "cache_get (compilationCache s) (getCacheKey H language code)")
      case (Some cached)
      then show ?thesis using hit[OF lc(1,2) sup] handle_hit[OF lc sup] by blast
    next
      case None
      let ?s1 = "if poolReady s then s else initPool w s"
      let ?s2 = "?s1\<lparr>admission_queue := executeWithQueue (job_id w) (admission_queue ?s1)\<rparr>"
      have c2: "compilationCache ?s2 = compilationCache s" by (simp add: initPool_frame)
      note hm = handle_miss[OF lc sup None, of w]
      show ?thesis
      proof (cases "activeCompilations (admission_queue s) < MAX_CONCURRENT_COMPILATIONS")
        case True
        then have "handle H w req s = complete_job w language code (getCacheKey H language code) ?s2"
          using hm by (simp add: Let_def)
        then show ?thesis using admitted[OF lc(1,2) sup None c2 _ _ True] by blast
      next
        case False
        then have "handle H w req s = (Pending, ?s2)"
          using hm by (simp add: Let_def)
        then show ?thesis using queued[OF lc(1,2) None c2 _ _ False] by blast
      qed
    qed
  qed
qed

section \<open>The free lists hold pool containers only\<close>

lemma push_warm_pool_ok: "pool_ok s \<Longrightarrow> pool_ok (push_warm t s)"
proof -
  assume ok: "pool_ok s"
  show ?thesis
  proof (cases "containerPool s (fst t)")
    case None
    then show ?thesis using ok by (simp add: push_warm_def)
  next
    case (Some pool)
    then have "containerPool (push_warm t s)
        = (containerPool s)(fst t \<mapsto> pool @ [pool_name (fst t) (snd t)])"
      by (simp add: push_warm_def)
    then show ?thesis
      using ok Some warm_name_pool[of "fst t @ ''-'' @ string_of_nat (snd t)"]
      unfolding pool_ok_def pool_name_def by (auto split: if_splits)
  qed
qed

lemma fold_push_warm_pool_ok: "pool_ok s \<Longrightarrow> pool_ok (fold push_warm ts s)"
  by (induction ts arbitrary: s) (simp_all add: push_warm_pool_ok)

lemma initPool_pool_ok: "pool_ok s \<Longrightarrow> pool_ok (initPool w s)"
proof -
  assume ok: "pool_ok s"
  let ?s1 = "log DockerVersion (s\<lparr>poolInitializing := True, poolInitPromise := True\<rparr>)"
  have "containerPool (fold start_warm warm_targets ?s1) = containerPool s"
    by (simp add: fold_start_warm_frame)
  then have a: "pool_ok (fold start_warm warm_targets ?s1)"
    using ok pool_ok_cong by blast
  have b: "pool_ok ?s1" using ok by (simp add: pool_ok_def)
  show ?thesis
    using ok b fold_push_warm_pool_ok[OF a,
        of "filter (\<lambda>t. t \<in> set warm_targets) (remdups (warm_finished w))"]
    by (simp add: initPool_def Let_def pool_ok_def split: option.splits)
qed

lemma compile_job_pool_ok:
  assumes ok: "pool_ok s" and run: "compile_job w language code cacheKey s = (r, l)"
  shows "pool_ok (srv l)"
proof -
  let ?l0 = "\<lparr>srv = s, containerName = [], scratch = False\<rparr>"
  obtain rt lt where t: "try_block w language code cacheKey ?l0 = (rt, lt)"
    by (cases "try_block w language code cacheKey ?l0")
  have ok0: "pool_ok (srv ?l0)" using ok by simp
  have f1: "containerName ?l0 = []" and f2: "\<not> scratch ?l0" by simp_all
  note tb = try_block_props[OF t f1 f2 ok0]
  show ?thesis
  proof (cases rt)
    case (Inr b)
    then show ?thesis using run t tb(4) by (auto simp: compile_job_def)
  next
    case (Inl err)
    obtain e l' where c: "catch_block w language err lt = (e, l')"
      by (cases "catch_block w language err lt")
    have "l = l'" using run t Inl c by (auto simp: compile_job_def)
    then show ?thesis using catch_block_props(7)[OF tb(2) c tb(4)] by simp
  qed
qed

lemma handle_pool_ok:
  assumes ok: "pool_ok s"
  shows "pool_ok (snd (handle H w req s))"
proof -
  have s1: "pool_ok (if poolReady s then s else initPool w s)"
    using ok initPool_pool_ok by simp
  show ?thesis
  proof (cases rule: handle_cases[of H w req s])
    case missing
    then show ?thesis using s1 by simp
  next
    case unsupported
    then show ?thesis using s1 by simp
  next
    case (hit language code cached)
    then show ?thesis using s1 by simp
  next
    case (queued language code s2)
    then show ?thesis using s1 by (simp add: pool_ok_def)
  next
    case (admitted language code s2)
    have ok2: "pool_ok s2" using s1 unfolding admitted(7) by (simp add: pool_ok_def)
    obtain r lt where cj: "compile_job w language code (getCacheKey H language code) s2 = (r, lt)"
      by (cases "compile_job w language code (getCacheKey H language code) s2")
    have "pool_ok (srv lt)" using compile_job_pool_ok[OF ok2 cj] .
    then show ?thesis
      unfolding admitted(6) using cj by (simp add: complete_job_def Let_def pool_ok_def)
  qed
qed

text \<open>
  The handler moves the admission queue by the steps of its runs only: a call, and for
  a job that is admitted at once, the settling of its promise and the code that
  resumes.  So a request keeps what holds of the queue between two pieces of code.
\<close>

lemma compile_job_admission:
  assumes ok: "pool_ok s" and run: "compile_job w language code cacheKey s = (r, l)"
  shows "admission_queue (srv l) = admission_queue s"
proof -
  let ?l0 = "\<lparr>srv = s, containerName = [], scratch = False\<rparr>"
  obtain rt lt where t: "try_block w language code cacheKey ?l0 = (rt, lt)"
    by (cases "try_block w language code cacheKey ?l0")
  have ok0: "pool_ok (srv ?l0)" using ok by simp
  have f1: "containerName ?l0 = []" and f2: "\<not> scratch ?l0" by simp_all
  note tb = try_block_props[OF t f1 f2 ok0]
  show ?thesis
  proof (cases rt)
    case (Inr b)
    then show ?thesis using run t tb(3) by (auto simp: compile_job_def)
  next
    case (Inl err)
    obtain e l' where c: "catch_block w language err lt = (e, l')"
      by (cases "catch_block w language err lt")
    have "l = l'" using run t Inl c by (auto simp: compile_job_def)
    then show ?thesis using catch_block_props(5)[OF tb(2) c] tb(3) by simp
  qed
qed

lemma handle_adm_inv:
  assumes inv: "adm_inv (admission_queue s)"
    and new: "job_id w \<notin> set (arrivals (admission_queue s))"
    and ok: "pool_ok s"
  shows "adm_inv (admission_queue (snd (handle H w req s)))"
proof -
  let ?s1 = "if poolReady s then s else initPool w s"
  have a1: "admission_queue ?s1 = admission_queue s" by (simp add: initPool_frame)
  have ok1: "pool_ok ?s1" using ok initPool_pool_ok by simp
  have call: "adm_inv (executeWithQueue (job_id w) (admission_queue s))"
    using inv new by (rule adm_inv_call)
  show ?thesis
  proof (cases rule: handle_cases[of H w req s])
    case missing
    then show ?thesis using inv a1 by simp
  next
    case unsupported
    then show ?thesis using inv a1 by simp
  next
    case (hit language code cached)
    then show ?thesis using inv a1 by simp
  next
    case (queued language code s2)
    then show ?thesis using call a1 by simp
  next
    case (admitted language code s2)
    let ?j = "job_id w"
    let ?a2 = "executeWithQueue ?j (admission_queue s)"
    have s2: "admission_queue s2 = ?a2" unfolding admitted(7) using a1 by simp
    have ok2: "pool_ok s2" unfolding admitted(7) using ok1 by (simp add: pool_ok_def)
    obtain r lt where cj: "compile_job w language code (getCacheKey H language code) s2 = (r, lt)"
      by (cases "compile_job w language code (getCacheKey H language code) s2")
    have keep: "admission_queue (srv lt) = ?a2"
      using compile_job_admission[OF ok2 cj] s2 by simp
    define okr where "okr = (case r of Inr result \<Rightarrow> True | Inl err \<Rightarrow> False)"
    have fin: "admission_queue (snd (handle H w req s)) = resume ?j okr (fn_settles ?j okr ?a2)"
      unfolding admitted(6) okr_def using cj keep
      by (simp add: complete_job_def Let_def)
    have started: "?j \<in> set (executing ?a2)"
    proof -
      have "activeCompilations (admission_queue s) < MAX_CONCURRENT_COMPILATIONS"
        using admitted(8) .
      then show ?thesis by (simp add: executeWithQueue_def start_fn_def Let_def)
    qed
    have i1: "adm_inv (fn_settles ?j okr ?a2)" using call started by (rule adm_inv_settles)
    have "(?j, okr) \<in> set (settling (fn_settles ?j okr ?a2))" by (simp add: fn_settles_def)
    then have "adm_inv (resume ?j okr (fn_settles ?j okr ?a2))" using i1 adm_inv_resume by blast
    then show ?thesis using fin by simp
  qed
qed

section \<open>Responses\<close>

text \<open>
  Claim C2, amended (the \<open>cached\<close> field).  Every response with status 200 has
  \<open>success: true\<close> and the artifact.  When the result comes from the cache, \<open>cached\<close>
  is \<open>true\<close> and the artifact is the one of the entry; when it is freshly compiled, the
  field \<open>cached\<close> is left out.  The second part is the response of a job that had to
  wait in the queue.
\<close>

theorem C2_cached_flag:
  "(\<forall>b. fst (handle H w req s) = Response 200 b \<longrightarrow>
       json_success b = Some True \<and> json_wasm b \<noteq> None
       \<and> (\<exists>language code. body_language req = Some language \<and> body_code req = Some code
             \<and> (case cache_get (compilationCache s) (getCacheKey H language code) of
                   Some cached \<Rightarrow> json_cached b = Some True \<and> json_wasm b = Some (wasm cached)
                 | None \<Rightarrow> json_cached b = None)))
   \<and> (\<forall>b. fst (complete_job w language' code' cacheKey s') = Response 200 b \<longrightarrow>
         json_success b = Some True \<and> json_wasm b \<noteq> None \<and> json_cached b = None)"
proof -
  have job: "json_success b = Some True \<and> json_wasm b \<noteq> None \<and> json_cached b = None"
    if "fst (complete_job w l c k s0) = Response 200 b" for l c k s0 b
    using complete_job_success[OF that] by auto
  have "json_success b = Some True \<and> json_wasm b \<noteq> None
       \<and> (\<exists>language code. body_language req = Some language \<and> body_code req = Some code
             \<and> (case cache_get (compilationCache s) (getCacheKey H language code) of
                   Some cached \<Rightarrow> json_cached b = Some True \<and> json_wasm b = Some (wasm cached)
                 | None \<Rightarrow> json_cached b = None))"
    if r: "fst (handle H w req s) = Response 200 b" for b
  proof (cases rule: handle_cases[of H w req s])
    case missing
    then show ?thesis using r by simp
  next
    case unsupported
    then show ?thesis using r by simp
  next
    case (hit language code cached)
    then show ?thesis using r by auto
  next
    case (queued language code s2)
    then show ?thesis using r by simp
  next
    case (admitted language code s2)
    then show ?thesis using r job[of language code "getCacheKey H language code" s2 b] by auto
  qed
  then show ?thesis using job by blast
qed

text \<open>
  Claim C7 (no empty error).  Every response that is not a success has an \<open>error\<close>
  field with a text that is not empty, for a request that is answered at once and for a
  job that had to wait; the error that the \<open>catch\<close> block throws never has an empty
  message; and when the cleaning of the text leaves nothing, the message is
  \<open>Compilation failed\<close>.
\<close>

theorem C7_error_never_empty:
  "(\<forall>st b. fst (handle H w req s) = Response st b \<and> st \<noteq> 200 \<longrightarrow>
       (\<exists>msg. json_error b = Some msg \<and> msg \<noteq> []))
   \<and> (\<forall>st b. fst (complete_job w language code cacheKey s') = Response st b \<and> st \<noteq> 200 \<longrightarrow>
       (\<exists>msg. json_error b = Some msg \<and> msg \<noteq> []))
   \<and> message (fst (catch_block w language err l)) \<noteq> []
   \<and> ((containerName l \<noteq> [] \<longrightarrow> containerPool (srv l) language \<noteq> None)
        \<and> classify language (raw_text err) = []
        \<longrightarrow> message (fst (catch_block w language err l)) = ''Compilation failed'')"
proof -
  have job: "\<exists>msg. json_error b = Some msg \<and> msg \<noteq> []"
    if "fst (complete_job w l c k s0) = Response st b" "st \<noteq> 200" for l c k s0 st b
    using complete_job_failure[OF that] by (auto simp: error_body_def)
  have hnd: "\<exists>msg. json_error b = Some msg \<and> msg \<noteq> []"
    if r: "fst (handle H w req s) = Response st b" and st: "st \<noteq> 200" for st b
  proof (cases rule: handle_cases[of H w req s])
    case missing
    then show ?thesis using r by (auto simp: error_body_def)
  next
    case unsupported
    then show ?thesis using r by (auto simp: error_body_def)
  next
    case (hit language code cached)
    then show ?thesis using r st by auto
  next
    case (queued language code s2)
    then show ?thesis using r by simp
  next
    case (admitted language code s2)
    then show ?thesis using r st job[of language code "getCacheKey H language code" s2 st b] by auto
  qed
  have fallback: "message (fst (catch_block w language err l)) = ''Compilation failed''"
    if p: "containerName l \<noteq> [] \<longrightarrow> containerPool (srv l) language \<noteq> None"
      and c: "classify language (raw_text err) = []"
  proof -
    obtain e l' where cb: "catch_block w language err l = (e, l')"
      by (cases "catch_block w language err l")
    show ?thesis using catch_block_props(1)[OF p cb] c cb by (simp add: or_else_def)
  qed
  show ?thesis using job hnd fallback catch_block_message_nonempty by blast
qed

lemma shim_inv_mono:
  "shim_inv H T R c \<Longrightarrow> R \<subseteq> R' \<Longrightarrow> shim_inv H T R' c"
  unfolding shim_inv_def by blast

lemma shim_inv_stored:
  assumes inv: "shim_inv H T R c"
    and st: "stored w language (getCacheKey H language code) c c'"
    and shim: "\<forall>t. read_shim_res w = Inr t \<longrightarrow> t = T"
  shows "shim_inv H T (insert (language, code) R) c'"
proof (cases "c' = c")
  case True
  then show ?thesis using shim_inv_mono[OF inv, of "insert (language, code) R"] by auto
next
  case False
  then obtain wasmB sh where c': "c' = cache_insert (now_clean w) (getCacheKey H language code)
                 \<lparr>wasm = wasmB, wasmExec = Some sh, timestamp = now_set w\<rparr> c"
    and sh: "if language = ''go'' then read_shim_res w = Inr sh else sh = []"
    using st unfolding stored_def by blast
  have sh': "sh = shim_of T language"
    using sh shim by (cases "language = ''go''") (auto simp: shim_of_def)
  let ?v = "\<lparr>wasm = wasmB, wasmExec = Some sh, timestamp = now_set w\<rparr>"
  have "\<exists>language' code'. (language', code') \<in> insert (language, code) R
          \<and> k = getCacheKey H language' code' \<and> wasmExec e = Some (shim_of T language')"
    if g: "cache_get c' k = Some e" for k e
  proof -
    from cache_get_insert[OF g[unfolded c']]
    consider (new) "k = getCacheKey H language code" "e = ?v"
      | (old) "cache_get c k = Some e" by blast
    then show ?thesis
    proof cases
      case new
      then have "wasmExec e = Some (shim_of T language)" using sh' by simp
      then show ?thesis using new(1) by blast
    next
      case old
      then show ?thesis using inv unfolding shim_inv_def by blast
    qed
  qed
  then show ?thesis unfolding shim_inv_def by blast
qed

lemma shim_inv_hit:
  assumes inv: "shim_inv H T R c"
    and nc: "no_collision H R language code"
    and hit: "cache_get c (getCacheKey H language code) = Some cached"
  shows "wasmExec cached = Some (if language = ''go'' then T else [])"
proof -
  obtain language' code' where r: "(language', code') \<in> R"
    "getCacheKey H language code = getCacheKey H language' code'"
    "wasmExec cached = Some (shim_of T language')"
    using inv hit unfolding shim_inv_def by blast
  have "(language' = ''go'') = (language = ''go'')"
    using nc r(1,2) unfolding no_collision_def by auto
  then show ?thesis using r(3) by (simp add: shim_of_def)
qed

lemma inj_no_collision:
  assumes inj: "inj H" and R: "\<forall>(language', code') \<in> R. CHR '':'' \<notin> set language'"
    and l: "CHR '':'' \<notin> set language"
  shows "no_collision H R language code"
  unfolding no_collision_def
proof (intro ballI, clarify)
  fix language' code'
  assume m: "(language', code') \<in> R"
    and k: "getCacheKey H language' code' = getCacheKey H language code"
  have "CHR '':'' \<notin> set language'" using R m by auto
  then have "language' = language" using getCacheKey_inj[OF inj _ l k] by simp
  then show "(language' = ''go'') = (language = ''go'')" by simp
qed

text \<open>
  Claim C10 (the shim field of a success).  Let \<open>T\<close> be the text of \<open>wasm_exec.js\<close>, the
  one that every reading of the file gives, and let the entries of the cache be the ones
  that the server has made for the requests \<open>R\<close> (\<open>shim_inv\<close>), none of which has the key
  of the request at hand unless both are for \<open>go\<close> or both are not.  Then every response
  with status 200, from the cache or freshly compiled, has the field \<open>wasmExec\<close>, and
  its value is \<open>T\<close> if the language of the request is \<open>go\<close> and the empty string if it is
  not; and the cache after the request is as the server makes it for \<open>R\<close> and the
  request.  The second half is the same for a job that had to wait in the queue.
\<close>

theorem C10_shim_field:
  assumes inv: "shim_inv H T R (compilationCache s)"
    and shim: "\<forall>t. read_shim_res w = Inr t \<longrightarrow> t = T"
    and nc: "\<forall>language code. body_language req = Some language \<and> body_code req = Some code
               \<longrightarrow> no_collision H R language code"
  shows "(\<forall>b. fst (handle H w req s) = Response 200 b \<longrightarrow>
            (\<exists>language code. body_language req = Some language \<and> body_code req = Some code
               \<and> json_wasmExec b = Some (if language = ''go'' then T else [])))
       \<and> shim_inv H T (R \<union> requested req) (compilationCache (snd (handle H w req s)))
       \<and> (\<forall>b. fst (complete_job w language code (getCacheKey H language code) s) = Response 200 b \<longrightarrow>
            json_wasmExec b = Some (if language = ''go'' then T else []))
       \<and> shim_inv H T (insert (language, code) R)
            (compilationCache (snd (complete_job w language code (getCacheKey H language code) s)))"
proof -
  have job_r: "json_wasmExec b = Some (if l = ''go'' then T else [])"
    if "fst (complete_job w l c k s0) = Response 200 b" for l c k s0 b
    using complete_job_success[OF that] shim by (cases "l = ''go''") auto
  have job_i: "shim_inv H T (insert (l, c) R)
      (compilationCache (snd (complete_job w l c (getCacheKey H l c) s0)))"
    if i: "shim_inv H T R (compilationCache s0)" for l c s0
  proof -
    obtain r lt where cj: "compile_job w l c (getCacheKey H l c) s0 = (r, lt)"
      by (cases "compile_job w l c (getCacheKey H l c) s0")
    have "shim_inv H T (insert (l, c) R) (compilationCache (srv lt))"
      using shim_inv_stored[OF i compile_job_cache[OF cj] shim] .
    then show ?thesis using cj by (simp add: complete_job_cache)
  qed
  have s1: "shim_inv H T (R \<union> requested req)
      (compilationCache (if poolReady s then s else initPool w s))"
    using shim_inv_mono[OF inv, of "R \<union> requested req"] by (simp add: initPool_frame)
  have hnd: "(\<forall>b. fst (handle H w req s) = Response 200 b \<longrightarrow>
            (\<exists>language code. body_language req = Some language \<and> body_code req = Some code
               \<and> json_wasmExec b = Some (if language = ''go'' then T else [])))
       \<and> shim_inv H T (R \<union> requested req) (compilationCache (snd (handle H w req s)))"
  proof (cases rule: handle_cases[of H w req s])
    case missing
    then show ?thesis using s1 by simp
  next
    case unsupported
    then show ?thesis using s1 by simp
  next
    case (hit language code cached)
    have "no_collision H R language code" using nc hit(1,2) by blast
    then have "wasmExec cached = Some (if language = ''go'' then T else [])"
      using shim_inv_hit[OF inv _ hit(4)] by blast
    then show ?thesis using hit(1,2,5) s1 by simp
  next
    case (queued language code s2)
    then show ?thesis using shim_inv_mono[OF inv, of "R \<union> requested req"] by simp
  next
    case (admitted language code s2)
    have i2: "shim_inv H T R (compilationCache s2)" using inv admitted(5) by simp
    have rq: "R \<union> requested req = insert (language, code) R"
      using admitted(1,2) by (simp add: requested_def)
    show ?thesis
      unfolding rq admitted(6)
      using admitted(1,2) job_r[of language code "getCacheKey H language code" s2]
        job_i[OF i2, of language code]
      by simp
  qed
  show ?thesis using hnd job_r job_i[OF inv] by blast
qed

section \<open>Release of a container\<close>

lemma releaseContainer_warm:
  assumes reg: "LANGUAGES language = Own config"
    and pool: "containerPool s language = Some pool"
  shows "releaseContainer language (''wasm-pool-'' @ language @ ''-'' @ string_of_nat i) s
          = (None,
             if length pool < poolSize config
             then (log (Released language (''wasm-pool-'' @ language @ ''-'' @ string_of_nat i)) s)
                    \<lparr>containerPool := (containerPool s)
                        (language \<mapsto> pool @ [''wasm-pool-'' @ language @ ''-'' @ string_of_nat i])\<rparr>
             else log (DockerRmF (''wasm-pool-'' @ language @ ''-'' @ string_of_nat i))
                    (log (Released language (''wasm-pool-'' @ language @ ''-'' @ string_of_nat i)) s))"
  using pool LANGUAGES_Own(2)[OF reg] warm_name_pool[of "language @ ''-'' @ string_of_nat i"]
  by (simp add: releaseContainer_def Let_def)

lemma releaseContainer_temp:
  assumes reg: "LANGUAGES language = Own config"
    and pool: "containerPool s language = Some pool"
  shows "releaseContainer language (''wasm-temp-'' @ language @ ''-'' @ string_of_nat t) s
          = (None,
             log (DockerRmF (''wasm-temp-'' @ language @ ''-'' @ string_of_nat t))
               (log (Released language (''wasm-temp-'' @ language @ ''-'' @ string_of_nat t)) s))"
  using pool temp_name_not_pool[OF LANGUAGES_Own(1)[OF reg], of t]
  by (simp add: releaseContainer_def Let_def)

text \<open>
  Claim C6 (what \<open>releaseContainer\<close> does with a container).  For a language of the
  registry: a container of the warm pool (\<open>wasm-pool-LANGUAGE-i\<close>) is put at the end
  of the free list if and only if the list is shorter than the pool size of the
  language, and is removed with \<open>docker rm -f\<close> otherwise; a container made on demand
  (\<open>wasm-temp-LANGUAGE-t\<close>) is always removed and the free lists stay as they are; and
  \<open>getContainer\<close> makes such a container when the free list is empty.
\<close>

theorem C6_release_policy:
  assumes reg: "LANGUAGES language = Own config"
    and pool: "containerPool s language = Some pool"
  shows "(let got = ''wasm-pool-'' @ language @ ''-'' @ string_of_nat i;
              s' = snd (releaseContainer language got s)
          in fst (releaseContainer language got s) = None
             \<and> containerPool s' language
                 = Some (if length pool < poolSize config then pool @ [got] else pool)
             \<and> (DockerRmF got \<in> set (new_effects s s') \<longleftrightarrow> \<not> length pool < poolSize config))
       \<and> (let got = ''wasm-temp-'' @ language @ ''-'' @ string_of_nat t;
              s' = snd (releaseContainer language got s)
          in fst (releaseContainer language got s) = None
             \<and> containerPool s' = containerPool s
             \<and> DockerRmF got \<in> set (new_effects s s'))
       \<and> (pool = [] \<and> docker_run_res w = None \<longrightarrow>
            fst (getContainer w language s)
              = Inr (''wasm-temp-'' @ language @ ''-'' @ string_of_nat (now_temp w))
            \<and> containerPool (snd (getContainer w language s)) = containerPool s)"
proof -
  have a: "(let got = ''wasm-pool-'' @ language @ ''-'' @ string_of_nat i;
              s' = snd (releaseContainer language got s)
          in fst (releaseContainer language got s) = None
             \<and> containerPool s' language
                 = Some (if length pool < poolSize config then pool @ [got] else pool)
             \<and> (DockerRmF got \<in> set (new_effects s s') \<longleftrightarrow> \<not> length pool < poolSize config))"
    unfolding Let_def releaseContainer_warm[OF reg pool]
    using pool by (simp add: new_effects_def)
  have b: "(let got = ''wasm-temp-'' @ language @ ''-'' @ string_of_nat t;
              s' = snd (releaseContainer language got s)
          in fst (releaseContainer language got s) = None
             \<and> containerPool s' = containerPool s
             \<and> DockerRmF got \<in> set (new_effects s s'))"
    unfolding Let_def releaseContainer_temp[OF reg pool]
    by (simp add: new_effects_def)
  have c: "pool = [] \<and> docker_run_res w = None \<longrightarrow>
            fst (getContainer w language s)
              = Inr (''wasm-temp-'' @ language @ ''-'' @ string_of_nat (now_temp w))
            \<and> containerPool (snd (getContainer w language s)) = containerPool s"
    using pool reg by (simp add: getContainer_def create_temp_def Let_def)
  show ?thesis using a b c by blast
qed

lemma LANGUAGES_cpp: "LANGUAGES ''cpp'' = Own cpp_config"
  by (simp add: LANGUAGES_def LANGUAGES_own_def cpp_config_def)

lemma init_pool_cpp: "containerPool init_server ''cpp'' = Some []"
  by (simp add: init_server_def LANGUAGES_own_def)

text \<open>
  For \<open>cpp\<close> and the empty free list of the initial server.
\<close>

theorem C6_witness:
  "LANGUAGES ''cpp'' = Own cpp_config \<and> containerPool init_server ''cpp'' = Some []
   \<and> containerPool (snd (releaseContainer ''cpp'' (''wasm-pool-cpp-'' @ string_of_nat 1) init_server)) ''cpp''
       = Some [''wasm-pool-cpp-'' @ string_of_nat 1]
   \<and> fst (getContainer ok_world ''cpp'' init_server) = Inr (''wasm-temp-cpp-'' @ string_of_nat 7)
   \<and> containerPool (snd (releaseContainer ''cpp'' (''wasm-temp-cpp-'' @ string_of_nat 7) init_server))
       = containerPool init_server"
  using C6_release_policy[OF LANGUAGES_cpp init_pool_cpp, of 1 7 ok_world]
    LANGUAGES_cpp init_pool_cpp
  by (simp add: Let_def cpp_config_def ok_world_def)

lemma pool_ok_init_server: "pool_ok init_server"
  by (auto simp: pool_ok_def init_server_def LANGUAGES_own_def split: if_splits)

lemma pool_ok_warm_server: "pool_ok warm_server"
  unfolding warm_server_def using pool_ok_init_server by (rule initPool_pool_ok)

text \<open>
  Three jobs.  On the warm server, a job that succeeds and a job that fails: the first
  container of the free list is acquired once and released once, to the end of the free
  list, nothing is destroyed, and the scratch directory is gone.  On the initial server,
  whose free lists are empty, a job that succeeds: its container is made on demand,
  released once and destroyed.
\<close>

theorem C5_witness:
  "pool_ok warm_server
   \<and> containerPool warm_server ''cpp''
       = Some [''wasm-pool-cpp-1'', ''wasm-pool-cpp-0'', ''wasm-pool-cpp-2'']
   \<and> acquisitions_of (new_effects warm_server
         (srv (snd (compile_job ok_world ''cpp'' ''int main() {}'' ''key'' warm_server))))
       = [(''cpp'', ''wasm-pool-cpp-1'')]
   \<and> releases_of (new_effects warm_server
         (srv (snd (compile_job ok_world ''cpp'' ''int main() {}'' ''key'' warm_server))))
       = [(''cpp'', ''wasm-pool-cpp-1'')]
   \<and> containerPool (srv (snd (compile_job ok_world ''cpp'' ''int main() {}'' ''key'' warm_server)))
       = (containerPool warm_server)
           (''cpp'' \<mapsto> [''wasm-pool-cpp-0'', ''wasm-pool-cpp-2'', ''wasm-pool-cpp-1''])
   \<and> destroyed_of (new_effects warm_server
         (srv (snd (compile_job ok_world ''cpp'' ''int main() {}'' ''key'' warm_server))))
       = []
   \<and> \<not> scratch (snd (compile_job ok_world ''cpp'' ''int main() {}'' ''key'' warm_server))
   \<and> releases_of (new_effects warm_server
         (srv (snd (compile_job failing_world ''go'' ''package main'' ''key'' warm_server))))
       = [(''go'', ''wasm-pool-go-0'')]
   \<and> \<not> scratch (snd (compile_job failing_world ''go'' ''package main'' ''key'' warm_server))
   \<and> pool_ok init_server
   \<and> releases_of (new_effects init_server
         (srv (snd (compile_job ok_world ''cpp'' ''int main() {}'' ''key'' init_server))))
       = [(''cpp'', ''wasm-temp-cpp-7'')]
   \<and> destroyed_of (new_effects init_server
         (srv (snd (compile_job ok_world ''cpp'' ''int main() {}'' ''key'' init_server))))
       = [''wasm-temp-cpp-7'']
   \<and> containerPool (srv (snd (compile_job ok_world ''cpp'' ''int main() {}'' ''key'' init_server)))
       = containerPool init_server"
proof -
  let ?ok = "compile_job ok_world ''cpp'' ''int main() {}'' ''key'' warm_server"
  let ?ko = "compile_job failing_world ''go'' ''package main'' ''key'' warm_server"
  let ?tmp = "compile_job ok_world ''cpp'' ''int main() {}'' ''key'' init_server"
  have c: "?ok = (fst ?ok, snd ?ok)" and d: "?ko = (fst ?ko, snd ?ko)"
    and e: "?tmp = (fst ?tmp, snd ?tmp)" by simp_all
  have p: "containerPool warm_server ''cpp''
       = Some [''wasm-pool-cpp-1'', ''wasm-pool-cpp-0'', ''wasm-pool-cpp-2'']" by code_simp
  have n: "containerName (snd ?ok) = ''wasm-pool-cpp-1''" by code_simp
  have r: "isl (fst ?ok) = False" by code_simp
  have i: "js_includes ''wasm-pool-cpp-1'' ''pool'' \<and> poolSize_or_2 ''cpp'' = 3" by code_simp
  have m: "containerName (snd ?ko) = ''wasm-pool-go-0''" by code_simp
  have q: "isl (fst ?ko) = True \<and> rm_catch_ok failing_world" by code_simp
  have p0: "containerPool init_server ''cpp'' = Some []" by (rule init_pool_cpp)
  have n0: "containerName (snd ?tmp) = ''wasm-temp-cpp-7''" by code_simp
  have i0: "\<not> js_includes ''wasm-temp-cpp-7'' ''pool''" by code_simp
  note a1 = C5_release_exactly_once[OF pool_ok_warm_server c]
  note a2 = C5_release_exactly_once[OF pool_ok_warm_server d]
  note a3 = C5_release_exactly_once[OF pool_ok_init_server e]
  have b1: "acquisitions_of (new_effects warm_server (srv (snd ?ok))) = [(''cpp'', ''wasm-pool-cpp-1'')]"
    "releases_of (new_effects warm_server (srv (snd ?ok))) = [(''cpp'', ''wasm-pool-cpp-1'')]"
    "containerPool (srv (snd ?ok))
       = (containerPool warm_server)
           (''cpp'' \<mapsto> [''wasm-pool-cpp-0'', ''wasm-pool-cpp-2'', ''wasm-pool-cpp-1''])"
    "destroyed_of (new_effects warm_server (srv (snd ?ok))) = []"
    "\<not> scratch (snd ?ok)"
    using a1 n r p i by (auto split: sum.splits)
  have b2: "releases_of (new_effects warm_server (srv (snd ?ko))) = [(''go'', ''wasm-pool-go-0'')]"
    "\<not> scratch (snd ?ko)"
    using a2 m q by (auto split: sum.splits)
  have b3: "releases_of (new_effects init_server (srv (snd ?tmp))) = [(''cpp'', ''wasm-temp-cpp-7'')]"
    "destroyed_of (new_effects init_server (srv (snd ?tmp))) = [''wasm-temp-cpp-7'']"
    "containerPool (srv (snd ?tmp)) = containerPool init_server"
    using a3 n0 p0 i0 by (auto simp: map_upd_triv)
  show ?thesis
    using b1 b2 b3 p pool_ok_warm_server pool_ok_init_server by blast
qed

text \<open>
  Claim C5 as stated fails on the failure path: when the compiler fails and the removal
  of the scratch directory in the \<open>catch\<close> block fails as well, the server ignores the
  second failure and answers with the first, the removal has been requested, the
  container has been released once, and the scratch directory is still there.
\<close>

theorem C5_counterexample:
  "pool_ok warm_server
   \<and> isl (fst (compile_job stuck_world ''go'' ''package main'' ''key'' warm_server))
   \<and> RmScratch \<in> set (new_effects warm_server
         (srv (snd (compile_job stuck_world ''go'' ''package main'' ''key'' warm_server))))
   \<and> releases_of (new_effects warm_server
         (srv (snd (compile_job stuck_world ''go'' ''package main'' ''key'' warm_server))))
       = [(''go'', ''wasm-pool-go-0'')]
   \<and> scratch (snd (compile_job stuck_world ''go'' ''package main'' ''key'' warm_server))"
proof -
  let ?ko = "compile_job stuck_world ''go'' ''package main'' ''key'' warm_server"
  have "isl (fst ?ko)" by code_simp
  moreover have "RmScratch \<in> set (new_effects warm_server (srv (snd ?ko)))" by code_simp
  moreover have "releases_of (new_effects warm_server (srv (snd ?ko)))
       = [(''go'', ''wasm-pool-go-0'')]" by code_simp
  moreover have "scratch (snd ?ko)" by code_simp
  ultimately show ?thesis using pool_ok_warm_server by blast
qed

section \<open>Sample runs\<close>

lemma fresh_cpp_response:
  "fst (handle sample_digest ok_world cpp_request warm_server) = Response 200 fresh_cpp_body"
  by code_simp

lemma fresh_cpp_miss:
  "cache_get (compilationCache warm_server) (getCacheKey sample_digest ''cpp'' ''int main() {}'')
     = None"
  by (simp add: warm_server_def initPool_frame init_server_def)

lemma cached_cpp_response:
  "fst (handle sample_digest ok_world cpp_request
          (snd (handle sample_digest ok_world cpp_request warm_server)))
     = Response 200 cached_cpp_body"
  by code_simp

lemma fresh_go_response:
  "fst (handle sample_digest ok_world go_request warm_server) = Response 200 fresh_go_body"
  by code_simp

lemma cached_go_response:
  "fst (handle sample_digest ok_world go_request
          (snd (handle sample_digest ok_world go_request warm_server)))
     = Response 200 cached_go_body"
  by code_simp

lemma failing_go_response:
  "fst (handle sample_digest failing_world go_request warm_server)
     = Response 500 (error_body ''Compilation failed'')"
  by code_simp

lemma silent_failure_classified: "classify ''go'' (raw_text silent_failure) = []"
  by code_simp

text \<open>
  Claim C2 as stated fails: the response to a fresh compilation has no \<open>cached\<close> field,
  so the field is not \<open>false\<close>.
\<close>

theorem C2_counterexample:
  "cache_get (compilationCache warm_server) (getCacheKey sample_digest ''cpp'' ''int main() {}'')
     = None
   \<and> fst (handle sample_digest ok_world cpp_request warm_server) = Response 200 fresh_cpp_body
   \<and> json_cached fresh_cpp_body = None \<and> json_cached fresh_cpp_body \<noteq> Some False"
  using fresh_cpp_response fresh_cpp_miss by (simp add: fresh_cpp_body_def)

text \<open>
  The same request twice: the first response is fresh, the second comes from the cache.
\<close>

theorem C2_witness:
  "fst (handle sample_digest ok_world cpp_request warm_server) = Response 200 fresh_cpp_body
   \<and> json_success fresh_cpp_body = Some True \<and> json_wasm fresh_cpp_body \<noteq> None
   \<and> json_cached fresh_cpp_body = None
   \<and> fst (handle sample_digest ok_world cpp_request
            (snd (handle sample_digest ok_world cpp_request warm_server)))
       = Response 200 cached_cpp_body
   \<and> json_success cached_cpp_body = Some True \<and> json_cached cached_cpp_body = Some True"
  using C2_cached_flag[of sample_digest ok_world cpp_request warm_server]
    C2_cached_flag[of sample_digest ok_world cpp_request
      "snd (handle sample_digest ok_world cpp_request warm_server)"]
    fresh_cpp_response cached_cpp_response
  by (simp add: fresh_cpp_body_def cached_cpp_body_def)

text \<open>
  A compiler that fails without output: the cleaning leaves nothing of the message, and
  the caller reads \<open>Compilation failed\<close>.
\<close>

theorem C7_witness:
  "fst (handle sample_digest failing_world go_request warm_server)
     = Response 500 (error_body ''Compilation failed'')
   \<and> json_error (error_body ''Compilation failed'') = Some ''Compilation failed''
   \<and> classify ''go'' (raw_text silent_failure) = []
   \<and> message (fst (catch_block failing_world ''go'' silent_failure
                      \<lparr>srv = warm_server, containerName = [], scratch = True\<rparr>))
       = ''Compilation failed''"
  using C7_error_never_empty[of sample_digest failing_world go_request warm_server "''go''"
      "''package main''" "''key''" warm_server silent_failure
      "\<lparr>srv = warm_server, containerName = [], scratch = True\<rparr>"]
    failing_go_response silent_failure_classified
  by (simp add: error_body_def)

text \<open>
  A request for \<open>cpp\<close> with an empty source.
\<close>

theorem C9_witness:
  "body_code no_source_request = Some []
   \<and> fst (handle sample_digest ok_world no_source_request warm_server)
       = Response 400 (error_body ''Missing language or code'')"
  using C9_empty_source_rejected[of no_source_request sample_digest ok_world warm_server]
  by (simp add: no_source_request_def)

lemma shim_inv_warm_server: "shim_inv sample_digest T {} (compilationCache warm_server)"
  by (simp add: shim_inv_def warm_server_def initPool_frame init_server_def)

lemma ok_world_shim: "\<forall>t. read_shim_res ok_world = Inr t \<longrightarrow> t = ''// shim''"
  by (simp add: ok_world_def)

text \<open>
  The same request twice, for \<open>go\<close> and for \<open>cpp\<close>, on the warm server, whose cache is
  empty: the first response is fresh, the second comes from the cache, and both have the
  shim of the language.
\<close>

theorem C10_witness:
  "shim_inv sample_digest ''// shim'' {} (compilationCache warm_server)
   \<and> fst (handle sample_digest ok_world go_request warm_server) = Response 200 fresh_go_body
   \<and> json_wasmExec fresh_go_body = Some ''// shim''
   \<and> fst (handle sample_digest ok_world go_request
            (snd (handle sample_digest ok_world go_request warm_server)))
       = Response 200 cached_go_body
   \<and> json_cached cached_go_body = Some True
   \<and> json_wasmExec cached_go_body = Some ''// shim''
   \<and> fst (handle sample_digest ok_world cpp_request warm_server) = Response 200 fresh_cpp_body
   \<and> json_wasmExec fresh_cpp_body = Some []
   \<and> fst (handle sample_digest ok_world cpp_request
            (snd (handle sample_digest ok_world cpp_request warm_server)))
       = Response 200 cached_cpp_body
   \<and> json_cached cached_cpp_body = Some True
   \<and> json_wasmExec cached_cpp_body = Some []"
proof -
  have nc0: "\<forall>language code. body_language req = Some language \<and> body_code req = Some code
               \<longrightarrow> no_collision sample_digest {} language code" for req
    by (simp add: no_collision_def)
  have nc1: "\<forall>language code. body_language req = Some language \<and> body_code req = Some code
               \<longrightarrow> no_collision sample_digest ({} \<union> requested req) language code" for req
    by (auto simp: no_collision_def requested_def split: option.splits)
  note go1 = C10_shim_field[OF shim_inv_warm_server ok_world_shim nc0, of go_request]
  then have "shim_inv sample_digest ''// shim'' ({} \<union> requested go_request)
      (compilationCache (snd (handle sample_digest ok_world go_request warm_server)))"
    by blast
  note go2 = C10_shim_field[OF this ok_world_shim nc1]
  note cpp1 = C10_shim_field[OF shim_inv_warm_server ok_world_shim nc0, of cpp_request]
  then have "shim_inv sample_digest ''// shim'' ({} \<union> requested cpp_request)
      (compilationCache (snd (handle sample_digest ok_world cpp_request warm_server)))"
    by blast
  note cpp2 = C10_shim_field[OF this ok_world_shim nc1]
  have "json_wasmExec fresh_go_body = Some ''// shim''"
    using go1 fresh_go_response by (auto simp: go_request_def)
  moreover have "json_wasmExec cached_go_body = Some ''// shim''"
    using go2 cached_go_response by (auto simp: go_request_def)
  moreover have "json_wasmExec fresh_cpp_body = Some []"
    using cpp1 fresh_cpp_response by (auto simp: cpp_request_def)
  moreover have "json_wasmExec cached_cpp_body = Some []"
    using cpp2 cached_cpp_response by (auto simp: cpp_request_def)
  ultimately show ?thesis
    using shim_inv_warm_server fresh_go_response cached_go_response fresh_cpp_response
      cached_cpp_response
    by (simp add: cached_go_body_def cached_cpp_body_def)
qed

text \<open>
  A language with the name of a member of \<open>Object.prototype\<close> is not in the registry
  and yet passes the check \<open>!LANGUAGES[language]\<close>: the request is admitted, and fails
  when the job joins the path of its source file.
\<close>

lemma inherited_key_is_admitted:
  "LANGUAGES ''toString'' = Inherited
   \<and> fst (handle sample_digest ok_world toString_request warm_server)
       = Response 500 (error_body (message path_type_error))
   \<and> arrivals (admission_queue (snd (handle sample_digest ok_world toString_request warm_server)))
       = [0]"
  by code_simp

end
